theory Spec2Isabelle
  imports Complex_Main "HOL-Library.List_Lexorder" "HOL-Library.Char_ord"
begin

section \<open>Multi-index enumeration\<close>

text \<open>
  \<^verbatim>\<open>itertools.combinations_with_replacement(pool, r)\<close> of the Python standard library:
  the length-\<open>r\<close> selections of pool elements with non-decreasing positions, emitted in
  lexicographic order of the positions.
\<close>

fun combinations_with_replacement :: "'a list \<Rightarrow> nat \<Rightarrow> 'a list list" where
  "combinations_with_replacement pool 0 = [[]]"
| "combinations_with_replacement [] (Suc r) = []"
| "combinations_with_replacement (x # xs) (Suc r) =
     map ((#) x) (combinations_with_replacement (x # xs) r)
     @ combinations_with_replacement xs (Suc r)"

text \<open>
  \<^verbatim>\<open>raw[:, 1:] - raw[:, :-1]\<close> on one row.
\<close>

definition row_diff :: "int list \<Rightarrow> int list" where
  "row_diff r = map2 (\<lambda>b a. b - a) (tl r) (butlast r)"

text \<open>
  \<^verbatim>\<open>NumPyBackend.multi_index_matrix(p, dim)\<close>: the combinations over \<open>range(p+1)\<close>,
  flipped along axis 0, framed by a leading 0 column and a trailing \<open>p\<close> column, then
  differenced along each row. The entries are \<^verbatim>\<open>np.int32\<close> in the source; they lie between
  0 and \<open>p\<close> and are modelled by unbounded integers, which is exact for \<open>p < 2^31\<close>.
\<close>

definition multi_index_matrix :: "nat \<Rightarrow> nat \<Rightarrow> int list list" where
  "multi_index_matrix p d =
     (let sep = rev (map (map int) (combinations_with_replacement [0..<p + 1] d));
          raw = map (\<lambda>s. [0] @ s @ [int p]) sep
      in map row_diff raw)"

section \<open>Errors and array indexing\<close>

text \<open>
  The exceptions the modelled functions raise. \<open>DivideByZero\<close> stands for a floating-point
  division by zero inside a kernel whose values are modelled by real numbers: NumPy
  goes on with \<open>inf\<close> or \<open>nan\<close> there (and a RuntimeWarning), which a real number cannot
  represent, so the model stops with this value instead. \<open>OutOfBounds\<close> stands for an
  access outside an array by compiled code that does not check its indices.
\<close>

datatype error =
    IndexError
  | ValueError string
  | NotImplementedError string
  | RuntimeError string
  | TypeError string
  | DivideByZero
  | OutOfBounds
  | NotANumber

text \<open>Indexing one axis with a Python integer: negative indices count from the end.\<close>

definition np_index :: "'a list \<Rightarrow> int \<Rightarrow> error + 'a" where
  "np_index xs i =
     (if 0 \<le> i \<and> i < int (length xs) then Inr (xs ! nat i)
      else if i < 0 \<and> - int (length xs) \<le> i then Inr (xs ! nat (int (length xs) + i))
      else Inl IndexError)"

text \<open>Broadcasting two one-dimensional index arrays against each other.\<close>

definition broadcast2 :: "'a list \<Rightarrow> 'b list \<Rightarrow> error + ('a \<times> 'b) list" where
  "broadcast2 xs ys =
     (if length xs = length ys then Inr (zip xs ys)
      else if length xs = 1 then Inr (zip (replicate (length ys) (hd xs)) ys)
      else if length ys = 1 then Inr (zip xs (replicate (length xs) (hd ys)))
      else Inl IndexError)"

text \<open>Running a fallible function over a list, stopping at the first error.\<close>

fun mapM :: "('a \<Rightarrow> error + 'b) \<Rightarrow> 'a list \<Rightarrow> error + 'b list" where
  "mapM f [] = Inr []"
| "mapM f (x # xs) =
     (case f x of
        Inl e \<Rightarrow> Inl e
      | Inr y \<Rightarrow> (case mapM f xs of Inl e \<Rightarrow> Inl e | Inr ys \<Rightarrow> Inr (y # ys)))"

section \<open>Simplex shape functions\<close>

text \<open>
  Arithmetic of \<^verbatim>\<open>np.int_\<close> arrays is modelled as 64-bit two's complement: products wrap.
\<close>

definition int64_wrap :: "int \<Rightarrow> int" where
  "int64_wrap x = (x + 2 ^ 63) mod 2 ^ 64 - 2 ^ 63"

text \<open>\<^verbatim>\<open>np.multiply.accumulate(c)\<close> on a one-dimensional \<^verbatim>\<open>np.int_\<close> array.\<close>

fun multiply_accumulate_from :: "int \<Rightarrow> int list \<Rightarrow> int list" where
  "multiply_accumulate_from a [] = []"
| "multiply_accumulate_from a (x # xs) =
     (let a' = int64_wrap (a * x) in a' # multiply_accumulate_from a' xs)"

definition multiply_accumulate :: "int list \<Rightarrow> int list" where
  "multiply_accumulate c = (case c of [] \<Rightarrow> [] | x # xs \<Rightarrow> x # multiply_accumulate_from x xs)"

text \<open>\<^verbatim>\<open>np.cumprod(A, axis=-2)\<close> on a two-dimensional table, given as its list of rows.\<close>

fun cumprod_from :: "real list \<Rightarrow> real list list \<Rightarrow> real list list" where
  "cumprod_from a [] = []"
| "cumprod_from a (r # rs) =
     (let a' = map2 (*) a r in a' # cumprod_from a' rs)"

definition cumprod_rows :: "real list list \<Rightarrow> real list list" where
  "cumprod_rows A = (case A of [] \<Rightarrow> [] | r # rs \<Rightarrow> r # cumprod_from r rs)"

text \<open>
  The table \<open>A\<close> of both shape-function kernels, before the cumulative product:
  a row of ones, then the rows \<open>p * bc - t\<close> for \<open>t = 0, ..., p - 1\<close>.
\<close>

definition shifted_table :: "real list \<Rightarrow> nat \<Rightarrow> real list list" where
  "shifted_table bc p =
     replicate (length bc) 1 # map (\<lambda>t. map (\<lambda>b. real p * b - real t) bc) [0..<p]"

text \<open>\<^verbatim>\<open>A[..., 1:, :] *= P.reshape(-1, 1)\<close>: row \<open>k + 1\<close> is scaled by \<open>P[k]\<close>.\<close>

definition scale_rows :: "real list list \<Rightarrow> real list \<Rightarrow> real list list" where
  "scale_rows A P =
     (case A of [] \<Rightarrow> [] | r # rs \<Rightarrow> r # map2 (\<lambda>row c. map (\<lambda>v. v * c) row) rs P)"

text \<open>
  \<^verbatim>\<open>A[..., mi, idx]\<close> for one row of \<open>mi\<close>: entry \<open>i\<close> is \<open>A[mi[i], idx[i]]\<close>, the two index
  arrays being broadcast against each other.
\<close>

definition gather :: "real list list \<Rightarrow> int list \<Rightarrow> int list \<Rightarrow> error + real list" where
  "gather A row idx =
     (case broadcast2 row idx of
        Inl e \<Rightarrow> Inl e
      | Inr ps \<Rightarrow>
          mapM (\<lambda>(k, i). case np_index A k of Inl e \<Rightarrow> Inl e | Inr r \<Rightarrow> np_index r i) ps)"

text \<open>
  \<^verbatim>\<open>NumPyBackend.simplex_shape_function(bc, p, mi)\<close> at one barycentric point \<open>bc\<close> (the
  function treats the leading axes of \<open>bc\<close> pointwise). Floating-point numbers are
  modelled by real numbers. With \<open>mi = None\<close> and an empty \<open>bc\<close> the call
  \<^verbatim>\<open>combinations_with_replacement(range(p+1), -1)\<close> raises ValueError.
\<close>

definition simplex_shape_function ::
  "real list \<Rightarrow> nat \<Rightarrow> int list list option \<Rightarrow> error + real list" where
  "simplex_shape_function bc p mi_opt =
     (if p = 1 then Inr bc
      else
        case (case mi_opt of
                None \<Rightarrow> if bc = [] then Inl (ValueError ''r must be non-negative'')
                        else Inr (multi_index_matrix p (length bc - 1))
              | Some m \<Rightarrow> Inr m) of
          Inl e \<Rightarrow> Inl e
        | Inr mi \<Rightarrow>
            let c = map int [1..<p + 1];
                acc = multiply_accumulate c
            in if 0 \<in> set acc then Inl DivideByZero
               else
                 let P = map (\<lambda>v. 1 / real_of_int v) acc;
                     A = scale_rows (cumprod_rows (shifted_table bc p)) P;
                     idx = map int [0..<length bc]
                 in mapM (\<lambda>row. case gather A row idx of
                                   Inl e \<Rightarrow> Inl e
                                 | Inr vs \<Rightarrow> Inr (prod_list vs)) mi)"

text \<open>
  \<^verbatim>\<open>NumPyBackend.simplex_grad_shape_function(bc, p, mi)\<close> at one barycentric point. There is
  no special case for \<open>p = 1\<close> here. The steps, for \<open>n = length bc\<close> directions:

  \<^item> \<open>FF\<close> is indexed \<open>[k][j][m]\<close>: the einsum copies row \<open>j\<close> of \<open>A[1:]\<close>, column \<open>k\<close>, along a new
    last axis of length \<open>p\<close>; the diagonal \<open>j = m\<close> is then overwritten with \<open>p\<close>, and the
    cumulative product runs along \<open>j\<close>;
  \<^item> \<^verbatim>\<open>np.tril\<close> keeps the entries with \<open>m \<le> j\<close>, the sum runs over \<open>m\<close>, and the result is
    transposed into the rows \<open>1, ..., p\<close> of \<open>F\<close>, whose row 0 is zero;
  \<^item> \<open>Q\<close> and \<open>M\<close> gather from \<open>A\<close> and \<open>F\<close> as the shape functions do, and column \<open>i\<close> of \<open>R\<close>
    is \<open>M[..., i]\<close> times the product of the other columns of \<open>Q\<close>.
\<close>

definition einsum_FF :: "real list list \<Rightarrow> nat \<Rightarrow> nat \<Rightarrow> real list list list" where
  "einsum_FF A1 n p = map (\<lambda>k. map (\<lambda>j. replicate p (A1 ! j ! k)) [0..<p]) [0..<n]"

definition set_diagonal :: "real list list \<Rightarrow> real \<Rightarrow> real list list" where
  "set_diagonal T v = map (\<lambda>j. (T ! j)[j := v]) [0..<length T]"

definition tril :: "real list list \<Rightarrow> real list list" where
  "tril T = map (\<lambda>j. map (\<lambda>m. if m \<le> j then T ! j ! m else 0) [0..<length (T ! j)]) [0..<length T]"

definition swapaxes :: "real list list \<Rightarrow> nat \<Rightarrow> nat \<Rightarrow> real list list" where
  "swapaxes T n p = map (\<lambda>j. map (\<lambda>k. T ! k ! j) [0..<n]) [0..<p]"

definition grad_table :: "real list \<Rightarrow> nat \<Rightarrow> real list \<Rightarrow> real list list" where
  "grad_table bc p P =
     (let A = shifted_table bc p;
          FF = map (\<lambda>T. cumprod_rows (set_diagonal T (real p))) (einsum_FF (tl A) (length bc) p);
          F1 = swapaxes (map (\<lambda>T. map sum_list (tril T)) FF) (length bc) p
      in scale_rows (replicate (length bc) 0 # F1) P)"

definition simplex_grad_shape_function ::
  "real list \<Rightarrow> nat \<Rightarrow> int list list option \<Rightarrow> error + real list list" where
  "simplex_grad_shape_function bc p mi_opt =
     (case (case mi_opt of
              None \<Rightarrow> if bc = [] then Inl (ValueError ''r must be non-negative'')
                      else Inr (multi_index_matrix p (length bc - 1))
            | Some m \<Rightarrow> Inr m) of
        Inl e \<Rightarrow> Inl e
      | Inr mi \<Rightarrow>
          let c = map int [1..<p + 1];
              acc = multiply_accumulate c
          in if 0 \<in> set acc then Inl DivideByZero
             else
               let P = map (\<lambda>v. 1 / real_of_int v) acc;
                   F = grad_table bc p P;
                   A = scale_rows (cumprod_rows (shifted_table bc p)) P;
                   idx = map int [0..<length bc]
               in mapM (\<lambda>row.
                    case gather A row idx of
                      Inl e \<Rightarrow> Inl e
                    | Inr Q \<Rightarrow>
                        (case gather F row idx of
                           Inl e \<Rightarrow> Inl e
                         | Inr M \<Rightarrow>
                             Inr (map (\<lambda>i. M ! i * prod_list (take i Q @ drop (Suc i) Q))
                                    [0..<length bc]))) mi)"

section \<open>The closed-form multi-index matrix of the JAX mesh base\<close>

text \<open>
  \<^verbatim>\<open>MeshBase.multi_index_matrix(p, etype)\<close> computes each row from its position with
  \<^verbatim>\<open>np.sqrt\<close>, a cube root and \<^verbatim>\<open>np.floor\<close>. Floats are modelled by reals, \<^verbatim>\<open>1e-4\<close> by
  \<open>1/10000\<close>, and storing a float into the integer matrix by truncation toward zero.
  \<^verbatim>\<open>np.sqrt\<close> of a negative number is \<open>nan\<close> (with a RuntimeWarning) and NumPy goes on,
  storing an unspecified integer; the model stops there with \<open>NotANumber\<close>. For an
  \<open>etype\<close> other than 1, 2 and 3 the function returns \<open>None\<close>.
\<close>

definition trunc :: "real \<Rightarrow> int" where
  "trunc x = (if 0 \<le> x then \<lfloor>x\<rfloor> else \<lceil>x\<rceil>)"

definition jax_row1 :: "nat \<Rightarrow> nat \<Rightarrow> int list" where
  "jax_row1 p i = (let m0 = int p - int i in [m0, int p - m0])"

definition jax_row2 :: "nat \<Rightarrow> nat \<Rightarrow> int list" where
  "jax_row2 p i =
     (let idx = real i;
          idx0 = real_of_int \<lfloor>(- 1 + sqrt (1 + 8 * idx)) / 2\<rfloor>;
          m2 = trunc (idx - idx0 * (idx0 + 1) / 2);
          m1 = trunc (idx0 - real_of_int m2)
      in [int p - m1 - m2, m1, m2])"

definition jax_idx0 :: "real \<Rightarrow> real" where
  "jax_idx0 idx =
     (let c = root 3 (3 * idx + sqrt (81 * idx * idx - 1 / 3) / 3)
      in real_of_int \<lfloor>c + 1 / c / 3 - 1 + 1 / 10000\<rfloor>)"

definition jax_row3 :: "nat \<Rightarrow> nat \<Rightarrow> error + int list" where
  "jax_row3 p i =
     (let idx = real i;
          idx0 = jax_idx0 idx;
          idx1 = idx - idx0 * (idx0 + 1) * (idx0 + 2) / 6
      in if 1 + 8 * idx1 < 0 then Inl NotANumber
         else
           let idx2 = real_of_int \<lfloor>(- 1 + sqrt (1 + 8 * idx1)) / 2\<rfloor>;
               m3 = trunc (idx1 - idx2 * (idx2 + 1) / 2);
               m2 = trunc (idx2 - real_of_int m3);
               m1 = trunc (idx0 - idx2)
           in Inr [int p - (m1 + m2 + m3), m1, m2, m3])"

definition jax_multi_index_matrix :: "nat \<Rightarrow> int \<Rightarrow> error + int list list option" where
  "jax_multi_index_matrix p etype =
     (if etype = 3 then
        (case mapM (jax_row3 p) [1..<(p + 1) * (p + 2) * (p + 3) div 6] of
           Inl e \<Rightarrow> Inl e
         | Inr rs \<Rightarrow> Inr (Some ([int p - (0 + 0 + 0), 0, 0, 0] # rs)))
      else if etype = 2 then Inr (Some (map (jax_row2 p) [0..<(p + 1) * (p + 2) div 2]))
      else if etype = 1 then Inr (Some (map (jax_row1 p) [0..<p + 1]))
      else Inr None)"

section \<open>Sparse kernels\<close>

text \<open>
  A dense NumPy array: its shape and its entries in row-major order. \<open>ndim\<close> is the length
  of the shape.
\<close>

record ndarray =
  shape :: "nat list"
  data :: "real list"

definition ndim :: "ndarray \<Rightarrow> nat" where
  "ndim a = length (shape a)"

definition vector :: "real list \<Rightarrow> ndarray" where
  "vector xs = \<lparr>shape = [length xs], data = xs\<rparr>"

text \<open>
  The compiled routines of \<^verbatim>\<open>scipy.sparse._sparsetools\<close> that the backend calls. They are
  not part of the repository; they are modelled from SciPy's documented behaviour. The
  routines do not check their index arguments: where the C++ code would read or write
  outside an array, the model returns \<open>OutOfBounds\<close>.

  \<^verbatim>\<open>coo_matvec(nnz, Ai, Aj, Ax, Xx, Yx)\<close>: for each entry \<open>n\<close> in turn,
  \<open>Yx[Ai[n]] += Ax[n] * Xx[Aj[n]]\<close>.
\<close>

fun coo_matvec_loop ::
  "nat list \<Rightarrow> nat list \<Rightarrow> real list \<Rightarrow> real list \<Rightarrow> real list \<Rightarrow> nat list \<Rightarrow> error + real list" where
  "coo_matvec_loop Ai Aj Ax Xx Yx [] = Inr Yx"
| "coo_matvec_loop Ai Aj Ax Xx Yx (n # ns) =
     (if n < length Ai \<and> n < length Aj \<and> n < length Ax
         \<and> Ai ! n < length Yx \<and> Aj ! n < length Xx
      then coo_matvec_loop Ai Aj Ax Xx
             (Yx[Ai ! n := Yx ! (Ai ! n) + Ax ! n * Xx ! (Aj ! n)]) ns
      else Inl OutOfBounds)"

definition coo_matvec ::
  "nat \<Rightarrow> nat list \<Rightarrow> nat list \<Rightarrow> real list \<Rightarrow> real list \<Rightarrow> real list \<Rightarrow> error + real list" where
  "coo_matvec nnz Ai Aj Ax Xx Yx = coo_matvec_loop Ai Aj Ax Xx Yx [0..<nnz]"

text \<open>
  \<^verbatim>\<open>csr_matvec(n_row, n_col, Ap, Aj, Ax, Xx, Yx)\<close>: row \<open>i\<close> of the result is \<open>Yx[i]\<close> plus the
  sum of \<open>Ax[jj] * Xx[Aj[jj]]\<close> over \<open>jj\<close> from \<open>Ap[i]\<close> up to \<open>Ap[i+1] - 1\<close>.
\<close>

fun csr_row_loop :: "nat list \<Rightarrow> real list \<Rightarrow> real list \<Rightarrow> real \<Rightarrow> nat list \<Rightarrow> error + real" where
  "csr_row_loop Aj Ax Xx s [] = Inr s"
| "csr_row_loop Aj Ax Xx s (jj # jjs) =
     (if jj < length Aj \<and> jj < length Ax \<and> Aj ! jj < length Xx
      then csr_row_loop Aj Ax Xx (s + Ax ! jj * Xx ! (Aj ! jj)) jjs
      else Inl OutOfBounds)"

definition csr_matvec ::
  "nat \<Rightarrow> nat \<Rightarrow> nat list \<Rightarrow> nat list \<Rightarrow> real list \<Rightarrow> real list \<Rightarrow> real list \<Rightarrow> error + real list" where
  "csr_matvec n_row n_col Ap Aj Ax Xx Yx =
     mapM (\<lambda>i. if Suc i < length Ap \<and> i < length Yx
                then csr_row_loop Aj Ax Xx (Yx ! i) [Ap ! i..<Ap ! Suc i]
                else Inl OutOfBounds) [0..<n_row]"

text \<open>
  \<^verbatim>\<open>csr_matvecs(n_row, n_col, n_vecs, Ap, Aj, Ax, Xx, Yx)\<close>: the same for a row-major block
  of \<open>n_vecs\<close> right-hand sides: row \<open>i\<close> of \<open>Y\<close> gains \<open>Ax[jj]\<close> times row \<open>Aj[jj]\<close> of \<open>X\<close>.
\<close>

fun csr_rows_loop ::
  "nat \<Rightarrow> nat list \<Rightarrow> real list \<Rightarrow> real list \<Rightarrow> real list \<Rightarrow> nat list \<Rightarrow> error + real list" where
  "csr_rows_loop n_vecs Aj Ax Xx y [] = Inr y"
| "csr_rows_loop n_vecs Aj Ax Xx y (jj # jjs) =
     (if jj < length Aj \<and> jj < length Ax \<and> n_vecs * Aj ! jj + n_vecs \<le> length Xx
      then csr_rows_loop n_vecs Aj Ax Xx
             (map2 (\<lambda>yk xk. yk + Ax ! jj * xk) y (take n_vecs (drop (n_vecs * Aj ! jj) Xx))) jjs
      else Inl OutOfBounds)"

definition csr_matvecs ::
  "nat \<Rightarrow> nat \<Rightarrow> nat \<Rightarrow> nat list \<Rightarrow> nat list \<Rightarrow> real list \<Rightarrow> real list \<Rightarrow> real list \<Rightarrow> error + real list" where
  "csr_matvecs n_row n_col n_vecs Ap Aj Ax Xx Yx =
     (case mapM (\<lambda>i. if Suc i < length Ap \<and> n_vecs * i + n_vecs \<le> length Yx
                     then csr_rows_loop n_vecs Aj Ax Xx
                            (take n_vecs (drop (n_vecs * i) Yx)) [Ap ! i..<Ap ! Suc i]
                     else Inl OutOfBounds) [0..<n_row] of
        Inl e \<Rightarrow> Inl e
      | Inr rows \<Rightarrow> Inr (concat rows @ drop (n_vecs * n_row) Yx))"

text \<open>
  \<^verbatim>\<open>coo_tocsr(n_row, n_col, nnz, Ai, Aj, Ax, Bp, Bj, Bx)\<close>: a counting sort by row. \<open>Bp[i]\<close>
  becomes the number of entries in rows before \<open>i\<close> and \<open>Bp[n_row]\<close> becomes \<open>nnz\<close>; \<open>Bj\<close>
  and \<open>Bx\<close> receive the column indices and values row by row, the entries of one row in
  their input order. Entries with the same row and column are carried over one by one.
\<close>

definition coo_tocsr_kernel ::
  "nat \<Rightarrow> nat \<Rightarrow> nat \<Rightarrow> nat list \<Rightarrow> nat list \<Rightarrow> real list
     \<Rightarrow> error + (nat list \<times> nat list \<times> real list)" where
  "coo_tocsr_kernel n_row n_col nnz Ai Aj Ax =
     (if nnz \<le> length Ai \<and> nnz \<le> length Aj \<and> nnz \<le> length Ax
         \<and> list_all (\<lambda>r. r < n_row) (take nnz Ai)
      then
        let entries = zip (take nnz Ai) (zip (take nnz Aj) (take nnz Ax));
            Bp = map (\<lambda>i. length (filter (\<lambda>e. fst e < i) entries)) [0..<n_row] @ [nnz];
            sorted_entries = concat (map (\<lambda>i. filter (\<lambda>e. fst e = i) entries) [0..<n_row])
        in Inr (Bp, map (\<lambda>e. fst (snd e)) sorted_entries, map (\<lambda>e. snd (snd e)) sorted_entries)
      else Inl OutOfBounds)"

text \<open>
  \<^verbatim>\<open>NumPyBackend.coo_spmm(indices, values, shape, other)\<close>. \<open>indices\<close> is the pair of its two
  rows. \<^verbatim>\<open>values.shape[-1]\<close> raises IndexError on a zero-dimensional \<open>values\<close>.
\<close>

definition column :: "ndarray \<Rightarrow> nat \<Rightarrow> real list" where
  "column a k = map (\<lambda>j. data a ! (j * last (shape a) + k)) [0..<hd (shape a)]"

definition from_columns :: "nat \<Rightarrow> real list list \<Rightarrow> ndarray" where
  "from_columns m cols =
     \<lparr>shape = [m, length cols], data = concat (map (\<lambda>i. map (\<lambda>c. c ! i) cols) [0..<m])\<rparr>"

definition coo_spmm ::
  "nat list \<times> nat list \<Rightarrow> ndarray \<Rightarrow> nat \<times> nat \<Rightarrow> ndarray \<Rightarrow> error + ndarray" where
  "coo_spmm indices values shp other =
     (if shape values = [] then Inl IndexError
      else
        let nnz = last (shape values);
            row = fst indices;
            col = snd indices
        in if ndim values = 1 then
             if ndim other = 1 then
               (case coo_matvec nnz row col (data values) (data other) (replicate (fst shp) 0) of
                  Inl e \<Rightarrow> Inl e
                | Inr result \<Rightarrow> Inr \<lparr>shape = [fst shp], data = result\<rparr>)
             else if ndim other = 2 then
               (case mapM (\<lambda>i. coo_matvec nnz row col (data values) (column other i)
                                 (replicate (fst shp) 0)) [0..<last (shape other)] of
                  Inl e \<Rightarrow> Inl e
                | Inr cols \<Rightarrow> Inr (from_columns (fst shp) cols))
             else Inl (ValueError ''`other` must be a 1-D or 2-D array.'')
           else Inl (NotImplementedError
                  ''Batch sparse matrix multiplication has not been supported yet.''))"

text \<open>\<^verbatim>\<open>NumPyBackend.csr_spmm(crow, col, values, shape, other)\<close>.\<close>

definition csr_spmm ::
  "nat list \<Rightarrow> nat list \<Rightarrow> ndarray \<Rightarrow> nat \<times> nat \<Rightarrow> ndarray \<Rightarrow> error + ndarray" where
  "csr_spmm crow col values shp other =
     (let M = fst shp; N = snd shp
      in if ndim values = 1 then
           if ndim other = 1 then
             (case csr_matvec M N crow col (data values) (data other) (replicate (fst shp) 0) of
                Inl e \<Rightarrow> Inl e
              | Inr result \<Rightarrow> Inr \<lparr>shape = [fst shp], data = result\<rparr>)
           else if ndim other = 2 then
             (let n_vecs = last (shape other)
              in case csr_matvecs M N n_vecs crow col (data values) (data other)
                        (replicate (fst shp * last (shape other)) 0) of
                   Inl e \<Rightarrow> Inl e
                 | Inr result \<Rightarrow> Inr \<lparr>shape = [fst shp, last (shape other)], data = result\<rparr>)
           else Inl (ValueError ''`other` must be a 1-D or 2-D array.'')
         else Inl (NotImplementedError
                ''Batch sparse matrix multiplication has not been supported yet.''))"

text \<open>
  \<^verbatim>\<open>NumPyBackend.coo_tocsr(indices, values, shape)\<close>: the three output arrays are allocated
  with \<open>M + 1\<close> entries, with the size of \<open>minor\<close> and with the size of \<open>values\<close>, and filled
  by the kernel.
\<close>

definition coo_tocsr ::
  "nat list \<times> nat list \<Rightarrow> real list \<Rightarrow> nat \<times> nat \<Rightarrow> error + (nat list \<times> nat list \<times> real list)" where
  "coo_tocsr indices values shp =
     (let M = fst shp; N = snd shp;
          major = fst indices; minor = snd indices;
          nnz = length values
      in coo_tocsr_kernel M N nnz major minor values)"

text \<open>
  The dense matrix a COO triple stands for, entries at the same position added up, and
  its product with a vector.
\<close>

definition coo_dense :: "nat list \<times> nat list \<Rightarrow> real list \<Rightarrow> nat \<Rightarrow> nat \<Rightarrow> real" where
  "coo_dense indices values i j =
     (\<Sum>e\<leftarrow>zip (fst indices) (zip (snd indices) values).
        if fst e = i \<and> fst (snd e) = j then snd (snd e) else 0)"

definition dense_matvec :: "(nat \<Rightarrow> nat \<Rightarrow> real) \<Rightarrow> nat \<times> nat \<Rightarrow> real list \<Rightarrow> real list" where
  "dense_matvec D shp x = map (\<lambda>i. \<Sum>j<snd shp. D i j * x ! j) [0..<fst shp]"

text \<open>
  The dense matrix a CSR triple stands for, entries of a row with the same column added up,
  and the product of a dense matrix with a two-dimensional array held in row-major order.
\<close>

definition csr_dense :: "nat list \<Rightarrow> nat list \<Rightarrow> real list \<Rightarrow> nat \<Rightarrow> nat \<Rightarrow> real" where
  "csr_dense crow col values i j =
     (\<Sum>jj\<leftarrow>[crow ! i..<crow ! Suc i]. if col ! jj = j then values ! jj else 0)"

definition dense_matmat ::
  "(nat \<Rightarrow> nat \<Rightarrow> real) \<Rightarrow> nat \<times> nat \<Rightarrow> ndarray \<Rightarrow> ndarray" where
  "dense_matmat D shp X =
     \<lparr>shape = [fst shp, last (shape X)],
      data = concat (map (\<lambda>i. map (\<lambda>k. \<Sum>j<snd shp. D i j * data X ! (j * last (shape X) + k))
                                [0..<last (shape X)]) [0..<fst shp])\<rparr>"

section \<open>Geometric kernels\<close>

text \<open>
  A two-dimensional array as its rows, with the number of columns kept beside them (it is
  part of the shape even when there is no row).
\<close>

record 'a array2 =
  cols :: nat
  rows :: "'a list list"

text \<open>\<^verbatim>\<open>node[entity, :]\<close> for one row of \<open>entity\<close>.\<close>

definition take_points :: "real array2 \<Rightarrow> int list \<Rightarrow> error + real list list" where
  "take_points node cell = mapM (np_index (rows node)) cell"

text \<open>\<^verbatim>\<open>points[..., 1:, :] - points[..., :-1, :]\<close> for the points of one entity.\<close>

definition consecutive_edges :: "real list list \<Rightarrow> real list list" where
  "consecutive_edges pts = map2 (map2 (\<lambda>a b. a - b)) (tl pts) (butlast pts)"

text \<open>
  \<^verbatim>\<open>NumPyBackend.simplex_measure(entity, node)\<close>. The name \<open>det\<close> of the source is
  \<^verbatim>\<open>numpy.linalg.det\<close>, a library routine that factorises each matrix in floating point;
  what it returns is not fixed by the repository, so the routine is a parameter of the
  kernels that call it, applied to one square matrix (a list of rows) at a time. Its
  result is taken to be a finite number.
\<close>

definition simplex_measure ::
  "(real list list \<Rightarrow> real) \<Rightarrow> int array2 \<Rightarrow> real array2 \<Rightarrow> error + real list" where
  "simplex_measure det entity node =
     (case mapM (take_points node) (rows entity) of
        Inl e \<Rightarrow> Inl e
      | Inr points \<Rightarrow>
          let TD = int (cols entity) - 1
          in if TD \<noteq> int (cols node)
             then Inl (RuntimeError
                    ''The geometric dimension of points must be NVC-1to form a simplex.'')
             else Inr (map (\<lambda>pts. det (consecutive_edges pts) / fact (nat TD)) points))"

text \<open>
  The determinant in exact arithmetic, by the Laplace expansion along the first row: the
  value \<^verbatim>\<open>numpy.linalg.det\<close> computes up to rounding. The determinant of the empty matrix
  is 1.
\<close>

definition minor_rows :: "real list list \<Rightarrow> nat \<Rightarrow> real list list" where
  "minor_rows rs j = map (\<lambda>row. take j row @ drop (Suc j) row) rs"

function exact_det :: "real list list \<Rightarrow> real" where
  "exact_det [] = 1"
| "exact_det (r # rs) = (\<Sum>j\<leftarrow>[0..<length r]. (- 1) ^ j * r ! j * exact_det (minor_rows rs j))"
  by pat_completeness auto
termination
  by (relation "measure length") (simp_all add: minor_rows_def)

text \<open>
  The result of a floating-point division. \<open>Finite v\<close> is the quotient \<open>v\<close> of exact
  arithmetic: its rounding is not modelled, nor its overflow to an infinity where it
  exceeds the floating-point range. The two outcomes a real number cannot stand for are
  there: dividing a non-zero number by zero gives an infinity (its sign, which depends on
  the signs of both operands, is not modelled), dividing zero by zero gives NaN. NumPy
  raises no exception in either case: under its default error state the division of two
  arrays goes on and, once done, emits one RuntimeWarning
  \<^verbatim>\<open>divide by zero encountered in divide\<close> if some entry divided a non-zero number by zero,
  and then one RuntimeWarning \<^verbatim>\<open>invalid value encountered in divide\<close> if some entry divided
  zero by zero. A warning is no exception: the call returns its array.
\<close>

datatype fp = Finite real | Infinite | NaN

datatype runtime_warning = DivideByZeroEncountered | InvalidValueEncountered

definition fp_divide :: "real \<Rightarrow> real \<Rightarrow> fp" where
  "fp_divide x y = (if y \<noteq> 0 then Finite (x / y) else if x \<noteq> 0 then Infinite else NaN)"

definition divide_warnings :: "fp list \<Rightarrow> runtime_warning list" where
  "divide_warnings quotients =
     (if Infinite \<in> set quotients then [DivideByZeroEncountered] else [])
     @ (if NaN \<in> set quotients then [InvalidValueEncountered] else [])"

text \<open>
  The three edge vectors of \<^verbatim>\<open>triangle_grad_lambda_2d\<close> for the points of one triangle, and
  \<open>nv\<close>, what \<open>det\<close> returns for the first two.
\<close>

definition tri_edges :: "real list list \<Rightarrow> real list list" where
  "tri_edges pts =
     [map2 (\<lambda>a b. a - b) (pts ! 2) (pts ! 1),
      map2 (\<lambda>a b. a - b) (pts ! 0) (pts ! 2),
      map2 (\<lambda>a b. a - b) (pts ! 1) (pts ! 0)]"

definition tri_nv :: "(real list list \<Rightarrow> real) \<Rightarrow> real list list \<Rightarrow> real" where
  "tri_nv det pts = det (take 2 (tri_edges pts))"

text \<open>
  The block of one triangle in \<^verbatim>\<open>triangle_grad_lambda_2d\<close>: each edge is flipped, its first
  component negated, and every entry divided by \<open>nv\<close>.
\<close>

definition tri_block :: "(real list list \<Rightarrow> real) \<Rightarrow> real list list \<Rightarrow> fp list list" where
  "tri_block det pts =
     (let nv = tri_nv det pts;
          result = map (\<lambda>e. case rev e of [] \<Rightarrow> [] | x # xs \<Rightarrow> (- 1 * x) # xs) (tri_edges pts)
      in map (map (\<lambda>v. fp_divide v nv)) result)"

text \<open>
  \<^verbatim>\<open>NumPyBackend.triangle_grad_lambda_2d(tri, node)\<close>. Indexing \<^verbatim>\<open>points[..., 2, :]\<close> needs
  three vertices per triangle; \<open>det\<close> needs two coordinates per point (LinAlgError
  otherwise, a ValueError subclass). The blocks of all triangles come out of one
  division of arrays. The function returns the array; the model returns it together with
  the warnings that division emitted.
\<close>

definition triangle_grad_lambda_2d ::
  "(real list list \<Rightarrow> real) \<Rightarrow> int array2 \<Rightarrow> real array2
     \<Rightarrow> error + runtime_warning list \<times> fp list list list" where
  "triangle_grad_lambda_2d det tri node =
     (case mapM (take_points node) (rows tri) of
        Inl e \<Rightarrow> Inl e
      | Inr points \<Rightarrow>
          if cols tri < 3 then Inl IndexError
          else if cols node \<noteq> 2
          then Inl (ValueError ''Last 2 dimensions of the array must be square'')
          else Inr (divide_warnings (concat (concat (map (tri_block det) points))),
                    map (tri_block det) points))"

section \<open>Device arguments and vmap\<close>

text \<open>Python values that occur as keyword arguments.\<close>

datatype pyval = PyNone | PyStr string | PyInt int

type_synonym kwargs = "string \<rightharpoonup> pyval"

text \<open>
  The decorator \<^verbatim>\<open>_remove_device(func)\<close>: the wrapper pops the keyword \<open>device\<close>, if present,
  and calls \<open>func\<close> with what is left.
\<close>

definition remove_device :: "('a \<Rightarrow> kwargs \<Rightarrow> 'r) \<Rightarrow> 'a \<Rightarrow> kwargs \<Rightarrow> 'r" where
  "remove_device func args kwargs =
     (if ''device'' \<in> dom kwargs then func args (kwargs(''device'' := None))
      else func args kwargs)"

text \<open>\<^verbatim>\<open>NumPyBackend.device_put(tensor_like, device=None)\<close>.\<close>

definition device_put :: "'t \<Rightarrow> pyval \<Rightarrow> error + 't" where
  "device_put tensor_like device =
     (if device \<notin> {PyNone, PyStr ''cpu''}
      then Inl (NotImplementedError ''only cpu device is supported by NumPyBackend '')
      else Inr tensor_like)"

text \<open>
  Modelled from the spec: the helper \<^verbatim>\<open>attach_methods\<close> and the table \<^verbatim>\<open>FUNCTION_MAPPING\<close>
  of \<^verbatim>\<open>base.py\<close>, which is not among the sources. After the class body,
  \<^verbatim>\<open>NumPyBackend.attach_methods(function_mapping, np)\<close> attaches the operations the class
  body has not bound; by the spec an operation is to ``perform the corresponding native
  call'', so an attached name is NumPy's own function of that name.
\<close>

definition attach_method :: "('a \<Rightarrow> kwargs \<Rightarrow> 'r) \<Rightarrow> 'a \<Rightarrow> kwargs \<Rightarrow> 'r" where
  "attach_method np_func = np_func"

text \<open>
  The creation functions. The class body binds each of \<open>arange\<close>, \<open>asarray\<close>, \<open>empty\<close>,
  \<open>empty_like\<close>, \<open>eye\<close>, \<open>full\<close>, \<open>full_like\<close>, \<open>linspace\<close>, \<open>ones\<close>, \<open>ones_like\<close>, \<open>zeros\<close>
  and \<open>zeros_like\<close> under the test \<^verbatim>\<open>if np.__version__ < '2.0.0'\<close>, a comparison of
  strings (lexicographic, by code point): where it holds, the name is bound to
  \<^verbatim>\<open>_remove_device\<close> of NumPy's function of that name; where it does not hold, the class
  body binds nothing and the name is attached afterwards.

  The version string \<^verbatim>\<open>np.__version__\<close> and NumPy's function of the same name are the two
  parameters of each definition; the positional arguments are passed on as they are.
\<close>

definition arange :: "string \<Rightarrow> ('a \<Rightarrow> kwargs \<Rightarrow> 'r) \<Rightarrow> 'a \<Rightarrow> kwargs \<Rightarrow> 'r" where
  "arange np_version np_arange =
     (if np_version < ''2.0.0'' then remove_device np_arange else attach_method np_arange)"

definition eye :: "string \<Rightarrow> ('a \<Rightarrow> kwargs \<Rightarrow> 'r) \<Rightarrow> 'a \<Rightarrow> kwargs \<Rightarrow> 'r" where
  "eye np_version np_eye =
     (if np_version < ''2.0.0'' then remove_device np_eye else attach_method np_eye)"

definition full :: "string \<Rightarrow> ('a \<Rightarrow> kwargs \<Rightarrow> 'r) \<Rightarrow> 'a \<Rightarrow> kwargs \<Rightarrow> 'r" where
  "full np_version np_full =
     (if np_version < ''2.0.0'' then remove_device np_full else attach_method np_full)"

definition linspace :: "string \<Rightarrow> ('a \<Rightarrow> kwargs \<Rightarrow> 'r) \<Rightarrow> 'a \<Rightarrow> kwargs \<Rightarrow> 'r" where
  "linspace np_version np_linspace =
     (if np_version < ''2.0.0'' then remove_device np_linspace else attach_method np_linspace)"

definition ones :: "string \<Rightarrow> ('a \<Rightarrow> kwargs \<Rightarrow> 'r) \<Rightarrow> 'a \<Rightarrow> kwargs \<Rightarrow> 'r" where
  "ones np_version np_ones =
     (if np_version < ''2.0.0'' then remove_device np_ones else attach_method np_ones)"

definition zeros :: "string \<Rightarrow> ('a \<Rightarrow> kwargs \<Rightarrow> 'r) \<Rightarrow> 'a \<Rightarrow> kwargs \<Rightarrow> 'r" where
  "zeros np_version np_zeros =
     (if np_version < ''2.0.0'' then remove_device np_zeros else attach_method np_zeros)"

text \<open>Python's \<^verbatim>\<open>str()\<close> of a keyword value.\<close>

function decimal :: "nat \<Rightarrow> string" where
  "decimal n = (if n < 10 then [char_of (48 + n)]
                else decimal (n div 10) @ [char_of (48 + n mod 10)])"
  by pat_completeness auto
termination
  by (relation "measure id") simp_all

definition py_str :: "pyval \<Rightarrow> string" where
  "py_str v =
     (case v of
        PyNone \<Rightarrow> ''None''
      | PyStr s \<Rightarrow> s
      | PyInt i \<Rightarrow> (if i < 0 then ''-'' @ decimal (nat (- i)) else decimal (nat i)))"

text \<open>
  \<^verbatim>\<open>numpy.zeros\<close> itself, from NumPy's documentation, for a shape given positionally.
  Before NumPy 2 its signature is \<^verbatim>\<open>zeros(shape, dtype=float, order='C', *, like=None)\<close>: any
  other keyword, \<open>device\<close> included, is a TypeError (whose message goes on to name the
  keyword). From NumPy 2.0 on the signature has \<^verbatim>\<open>device=None\<close> as well, ``for Array-API
  interoperability only, so must be "cpu" if passed'': any other device is a ValueError.
  The entries are zero whatever \<open>dtype\<close>, \<open>order\<close> and \<open>like\<close> are; the values of these
  three keywords are not modelled.
\<close>

definition numpy_1_zeros :: "nat list \<Rightarrow> kwargs \<Rightarrow> error + ndarray" where
  "numpy_1_zeros shp kwargs =
     (if dom kwargs \<subseteq> {''dtype'', ''order'', ''like''}
      then Inr \<lparr>shape = shp, data = replicate (prod_list shp) 0\<rparr>
      else Inl (TypeError ''zeros() got an unexpected keyword argument''))"

definition numpy_2_zeros :: "nat list \<Rightarrow> kwargs \<Rightarrow> error + ndarray" where
  "numpy_2_zeros shp kwargs =
     (if dom kwargs \<subseteq> {''dtype'', ''order'', ''device'', ''like''}
      then (case kwargs ''device'' of
              None \<Rightarrow> Inr \<lparr>shape = shp, data = replicate (prod_list shp) 0\<rparr>
            | Some d \<Rightarrow>
                if d = PyNone \<or> d = PyStr ''cpu''
                then Inr \<lparr>shape = shp, data = replicate (prod_list shp) 0\<rparr>
                else Inl (ValueError (''Device not understood. Only '' @ [CHR 0x22] @ ''cpu''
                            @ [CHR 0x22] @ '' is allowed, but received: '' @ py_str d)))
      else Inl (TypeError ''zeros() got an unexpected keyword argument''))"

text \<open>
  \<^verbatim>\<open>NumPyBackend.vmap(func, in_axes, out_axes)\<close>. The two NumPy functions the returned
  closure calls, \<^verbatim>\<open>np.unstack(arr, axis=...)\<close> and \<^verbatim>\<open>np.stack(arrays, axis=...)\<close>, are
  parameters of the model, over any type \<open>'a\<close> of arrays. A positional argument is an
  array or something else; the closure drops everything else. The wrapped function
  returns an array on every call or a tuple of arrays on every call.
\<close>

record 'a numpy =
  np_unstack :: "'a \<Rightarrow> int \<Rightarrow> error + 'a list"
  np_stack :: "'a list \<Rightarrow> int \<Rightarrow> error + 'a"

datatype 'a pyarg = NdArray 'a | NotArray pyval

datatype 'a pyfunc =
    ReturnsArray "'a list \<Rightarrow> kwargs \<Rightarrow> error + 'a"
  | ReturnsTuple "'a list \<Rightarrow> kwargs \<Rightarrow> error + 'a list"

datatype 'a pyresult = Array 'a | PyTuple "'a list"

text \<open>Python's \<^verbatim>\<open>zip(*ls)\<close>: the tuples of entries at equal positions, up to the shortest list.\<close>

definition zip_star :: "'b list list \<Rightarrow> 'b list list" where
  "zip_star ls =
     (case ls of
        [] \<Rightarrow> []
      | l # ls' \<Rightarrow> map (\<lambda>i. map (\<lambda>m. m ! i) ls) [0..<fold min (map length ls') (length l)])"

definition arrays_of :: "'a pyarg list \<Rightarrow> 'a list" where
  "arrays_of args = concat (map (\<lambda>a. case a of NdArray x \<Rightarrow> [x] | NotArray _ \<Rightarrow> []) args)"

definition vectorized ::
  "'a numpy \<Rightarrow> 'a pyfunc \<Rightarrow> int \<Rightarrow> 'a pyarg list \<Rightarrow> kwargs \<Rightarrow> error + 'a pyresult" where
  "vectorized np func in_axes args kwargs =
     (case mapM (\<lambda>arr. np_unstack np arr in_axes) (arrays_of args) of
        Inl e \<Rightarrow> Inl e
      | Inr arr_lists \<Rightarrow>
          if arr_lists = [] then Inl (TypeError ''map() must have at least two arguments.'')
          else
            (case func of
               ReturnsArray f \<Rightarrow>
                 (case mapM (\<lambda>slices. f slices kwargs) (zip_star arr_lists) of
                    Inl e \<Rightarrow> Inl e
                  | Inr results \<Rightarrow>
                      if results = [] then Inl IndexError
                      else (case np_stack np results in_axes of
                              Inl e \<Rightarrow> Inl e
                            | Inr r \<Rightarrow> Inr (Array r)))
             | ReturnsTuple f \<Rightarrow>
                 (case mapM (\<lambda>slices. f slices kwargs) (zip_star arr_lists) of
                    Inl e \<Rightarrow> Inl e
                  | Inr results \<Rightarrow>
                      if results = [] then Inl IndexError
                      else (case mapM (\<lambda>parts. np_stack np parts in_axes) (zip_star results) of
                              Inl e \<Rightarrow> Inl e
                            | Inr rs \<Rightarrow> Inr (PyTuple rs)))))"

definition vmap ::
  "'a numpy \<Rightarrow> 'a pyfunc \<Rightarrow> int \<Rightarrow> int
     \<Rightarrow> error + ('a pyarg list \<Rightarrow> kwargs \<Rightarrow> error + 'a pyresult)" where
  "vmap np func in_axes out_axes =
     (if in_axes \<noteq> out_axes
      then Inl (ValueError ''Only support in_axes == out_axes with numpy backend'')
      else Inr (vectorized np func in_axes))"

text \<open>
  An instance of the two NumPy functions on matrices given as lists of rows, for axis 0
  only: unstacking yields the rows, stacking collects them.
\<close>

definition rows_numpy :: "real list list numpy" where
  "rows_numpy =
     \<lparr>np_unstack = (\<lambda>a axis. if axis = 0 then Inr (map (\<lambda>r. [r]) a)
                             else Inl (ValueError ''axis'')),
      np_stack = (\<lambda>as axis. if axis = 0 then Inr (concat as) else Inl (ValueError ''axis''))\<rparr>"

section \<open>Auxiliary notions for the proofs\<close>

text \<open>
  The Cauchy product of a list of sequences: \<open>convolution fs n\<close> is the sum, over all ways
  of writing \<open>n\<close> as an ordered sum of \<open>length fs\<close> naturals, of the product of the
  corresponding terms.
\<close>

fun convolution :: "(nat \<Rightarrow> real) list \<Rightarrow> nat \<Rightarrow> real" where
  "convolution [] n = (if n = 0 then 1 else 0)"
| "convolution (f # fs) n = (\<Sum>k\<le>n. f k * convolution fs (n - k))"

text \<open>The product a shape function takes over one row of the multi-index matrix.\<close>

definition row_product :: "(nat \<Rightarrow> real) list \<Rightarrow> int list \<Rightarrow> real" where
  "row_product fs row = prod_list (map2 (\<lambda>f k. f (nat k)) fs row)"

text \<open>
  The derivative of the falling product \<open>x * (x - 1) * ... * (x - (n - 1))\<close> with respect to
  \<open>x\<close>, by the product rule.
\<close>

definition falling_deriv :: "nat \<Rightarrow> real \<Rightarrow> real" where
  "falling_deriv n x = (\<Sum>m<n. \<Prod>j\<in>{..<n} - {m}. x - real j)"

section \<open>Properties of the enumeration\<close>

lemma length_cwr:
  "length (combinations_with_replacement pool r) = (length pool + r - 1) choose r"
proof (induction pool r rule: combinations_with_replacement.induct)
  case (1 pool)
  then show ?case by simp
next
  case (2 r)
  then show ?case by simp
next
  case (3 x xs r)
  then show ?case by simp
qed

lemma cwr_map:
  "map (map f) (combinations_with_replacement pool r) = combinations_with_replacement (map f pool) r"
proof (induction pool r rule: combinations_with_replacement.induct)
  case (3 x xs r)
  from 3 have IH1: "combinations_with_replacement (f x # map f xs) r
      = map (map f) (combinations_with_replacement (x # xs) r)"
    by simp
  show ?case using "3.IH"(2) by (simp add: IH1 comp_def)
qed simp_all

lemma cwr_length_elem:
  "s \<in> set (combinations_with_replacement pool r) \<Longrightarrow> length s = r"
  by (induction pool r arbitrary: s rule: combinations_with_replacement.induct) auto

lemma cwr_subset:
  "s \<in> set (combinations_with_replacement pool r) \<Longrightarrow> set s \<subseteq> set pool"
  by (induction pool r arbitrary: s rule: combinations_with_replacement.induct) fastforce+

lemma cwr_sorted:
  fixes pool :: "'a::linorder list"
  shows "sorted pool \<Longrightarrow> s \<in> set (combinations_with_replacement pool r) \<Longrightarrow> sorted s"
proof (induction pool r arbitrary: s rule: combinations_with_replacement.induct)
  case (3 x xs r)
  from "3.prems"(2) consider (a) t where "s = x # t" "t \<in> set (combinations_with_replacement (x # xs) r)"
    | (b) "s \<in> set (combinations_with_replacement xs (Suc r))"
    by auto
  then show ?case
  proof cases
    case a
    have "sorted t" using "3.IH"(1)[OF "3.prems"(1) a(2)] .
    moreover have "\<forall>y\<in>set t. x \<le> y"
      using cwr_subset[OF a(2)] "3.prems"(1) by auto
    ultimately show ?thesis using a by simp
  next
    case b
    then show ?thesis using "3.IH"(2) "3.prems"(1) by simp
  qed
qed simp_all

lemma cwr_strict_sorted:
  fixes pool :: "'a::linorder list"
  shows "sorted_wrt (<) pool \<Longrightarrow> sorted_wrt (<) (combinations_with_replacement pool r)"
proof (induction pool r rule: combinations_with_replacement.induct)
  case (3 x xs r)
  have 1: "sorted_wrt (<) (map ((#) x) (combinations_with_replacement (x # xs) r))"
    using "3.IH"(1)[OF "3.prems"] by (simp add: sorted_wrt_map)
  have 2: "sorted_wrt (<) (combinations_with_replacement xs (Suc r))"
    using "3.IH"(2) "3.prems" by simp
  have 3: "a < b" if A: "a \<in> set (map ((#) x) (combinations_with_replacement (x # xs) r))"
    and B: "b \<in> set (combinations_with_replacement xs (Suc r))" for a b
  proof -
    obtain t where a: "a = x # t" using A by auto
    from cwr_length_elem[OF B] obtain y u where b: "b = y # u" by (cases b) auto
    have "y \<in> set xs" using cwr_subset[OF B] b by auto
    then have "x < y" using "3.prems" by auto
    then show ?thesis using a b by simp
  qed
  show ?case using 1 2 3 by (simp add: sorted_wrt_append)
qed simp_all

lemma row_diff_single [simp]: "row_diff [a] = []"
  by (simp add: row_diff_def)

lemma row_diff_Cons2 [simp]: "row_diff (a # b # xs) = (b - a) # row_diff (b # xs)"
  by (simp add: row_diff_def)

lemma length_row_diff_frame: "length (row_diff (a # s @ [q])) = Suc (length s)"
  by (induction s arbitrary: a) simp_all

lemma sum_list_row_diff_frame: "sum_list (row_diff (a # s @ [q])) = q - a"
  by (induction s arbitrary: a) simp_all

lemma row_diff_frame_nonneg:
  "sorted (a # s @ [q]) \<Longrightarrow> k \<in> set (row_diff (a # s @ [q])) \<Longrightarrow> 0 \<le> k"
  by (induction s arbitrary: a) auto

lemma row_diff_frame_less:
  "length s = length t \<Longrightarrow> s < t \<Longrightarrow> row_diff (a # s @ [q]) < row_diff (a # t @ [q])"
proof (induction s t arbitrary: a rule: list_induct2)
  case Nil
  then show ?case by simp
next
  case (Cons x xs y ys)
  then show ?case by auto
qed

lemma mim_unfold:
  "multi_index_matrix p d =
     map (\<lambda>s. row_diff (0 # s @ [int p]))
       (rev (combinations_with_replacement (map int [0..<p + 1]) d))"
  by (simp add: multi_index_matrix_def Let_def cwr_map[symmetric] comp_def rev_map del: upt_Suc)

lemma pool_strict_sorted: "sorted_wrt (<) (map int [0..<n])"
  by (simp add: sorted_wrt_map sorted_wrt_iff_nth_less)

lemma length_multi_index_matrix: "length (multi_index_matrix p d) = (p + d) choose d"
  by (simp add: mim_unfold length_cwr del: upt_Suc)

lemma multi_index_matrix_row:
  assumes "row \<in> set (multi_index_matrix p d)"
  shows "length row = d + 1" and "\<forall>k\<in>set row. 0 \<le> k" and "sum_list row = int p"
proof -
  from assms obtain s where s: "s \<in> set (combinations_with_replacement (map int [0..<p + 1]) d)"
    and row: "row = row_diff (0 # s @ [int p])"
    unfolding mim_unfold by auto
  have len: "length s = d" using cwr_length_elem[OF s] .
  have sub: "set s \<subseteq> set (map int [0..<p + 1])" using cwr_subset[OF s] .
  have srt: "sorted s"
    using cwr_sorted[OF strict_sorted_imp_sorted[OF pool_strict_sorted] s] .
  have "sorted (0 # s @ [int p])"
    using srt sub by (auto simp: sorted_append)
  then show "\<forall>k\<in>set row. 0 \<le> k" using row_diff_frame_nonneg row by blast
  show "length row = d + 1" by (simp add: row length_row_diff_frame len)
  show "sum_list row = int p" by (simp add: row sum_list_row_diff_frame)
qed

lemma multi_index_matrix_sorted:
  "sorted_wrt (\<lambda>a b. b < a) (multi_index_matrix p d)"
proof -
  let ?C = "combinations_with_replacement (map int [0..<p + 1]) d"
  have "sorted_wrt (<) ?C" by (rule cwr_strict_sorted[OF pool_strict_sorted])
  then have "sorted_wrt (\<lambda>s t. row_diff (0 # s @ [int p]) < row_diff (0 # t @ [int p])) ?C"
  proof (rule sorted_wrt_mono_rel[rotated])
    fix s t assume "s \<in> set ?C" "t \<in> set ?C" "s < t"
    then show "row_diff (0 # s @ [int p]) < row_diff (0 # t @ [int p])"
      using row_diff_frame_less[of s t] cwr_length_elem by metis
  qed
  then show ?thesis
    unfolding mim_unfold by (simp add: sorted_wrt_map sorted_wrt_rev)
qed

lemma multi_index_matrix_distinct: "distinct (multi_index_matrix p d)"
proof -
  have "sorted_wrt (<) (rev (multi_index_matrix p d))"
    using multi_index_matrix_sorted[of p d] by (simp add: sorted_wrt_rev)
  then have "distinct (rev (multi_index_matrix p d))"
    using strict_sorted_iff by blast
  then show ?thesis by simp
qed

text \<open>
  Claim C4. For every degree \<open>p\<close> and every dimension \<open>TD\<close> (in particular 1, 2 and 3)
  the matrix has exactly \<open>C(p + TD, TD)\<close> rows; every row has \<open>TD + 1\<close> non-negative
  entries that sum to \<open>p\<close>; no row occurs twice; and the rows stand in one fixed order,
  strictly decreasing in the lexicographic order of the rows, so that the leading
  coordinate varies slowest. The matrix is a function of \<open>(p, TD)\<close> alone, hence the same
  on every call.
\<close>

theorem multi_index_matrix_enumeration:
  "length (multi_index_matrix p TD) = (p + TD) choose TD
   \<and> (\<forall>row\<in>set (multi_index_matrix p TD).
         length row = TD + 1 \<and> (\<forall>k\<in>set row. 0 \<le> k) \<and> sum_list row = int p)
   \<and> distinct (multi_index_matrix p TD)
   \<and> sorted_wrt (\<lambda>a b. b < a) (multi_index_matrix p TD)"
  using length_multi_index_matrix multi_index_matrix_row multi_index_matrix_distinct
    multi_index_matrix_sorted by blast

theorem multi_index_matrix_enumeration_witness:
  "multi_index_matrix 2 2 = [[2,0,0],[1,1,0],[1,0,1],[0,2,0],[0,1,1],[0,0,2]]
   \<and> length (multi_index_matrix 2 2) = (2 + 2) choose 2
   \<and> list_all (\<lambda>row. length row = 2 + 1 \<and> list_all (\<lambda>k. 0 \<le> k) row \<and> sum_list row = int 2)
        (multi_index_matrix 2 2)
   \<and> distinct (multi_index_matrix 2 2)
   \<and> sorted_wrt (\<lambda>a b. b < a) (multi_index_matrix 2 2)"
proof -
  have e: "multi_index_matrix 2 2 = [[2,0,0],[1,1,0],[1,0,1],[0,2,0],[0,1,1],[0,0,2]]"
    by code_simp
  show ?thesis
    using multi_index_matrix_enumeration[of 2 2] by (simp add: e list_all_iff)
qed

section \<open>Sums over the multi-index matrix\<close>

lemma gbinomial_Vandermonde_real:
  fixes a b :: real
  shows "(\<Sum>k\<le>n. (a gchoose k) * (b gchoose (n - k))) = (a + b) gchoose n"
proof -
  have "(a + b) gchoose n = (- 1) ^ n * pochhammer (- a + - b) n / fact n"
    by (simp add: gbinomial_pochhammer)
  also have "pochhammer (- a + - b) n
      = (\<Sum>k\<le>n. of_nat (n choose k) * pochhammer (- a) k * pochhammer (- b) (n - k))"
    by (rule pochhammer_binomial_sum)
  also have "(- 1) ^ n * (\<Sum>k\<le>n. of_nat (n choose k) * pochhammer (- a) k * pochhammer (- b) (n - k)) / fact n
      = (\<Sum>k\<le>n. (- 1) ^ n * (of_nat (n choose k) * pochhammer (- a) k * pochhammer (- b) (n - k)) / fact n)"
    by (simp add: sum_distrib_left sum_divide_distrib)
  also have "\<dots> = (\<Sum>k\<le>n. (a gchoose k) * (b gchoose (n - k)))"
  proof (rule sum.cong[OF refl])
    fix k assume "k \<in> {..n}"
    then have kn: "k \<le> n" by simp
    have pw: "(- 1 :: real) ^ n = (- 1) ^ k * (- 1) ^ (n - k)"
      using kn by (simp flip: power_add)
    have "(of_nat (n choose k) :: real) = fact n / (fact k * fact (n - k))"
      by (rule binomial_fact[OF kn])
    then show "(- 1) ^ n * (of_nat (n choose k) * pochhammer (- a) k * pochhammer (- b) (n - k)) / fact n
        = (a gchoose k) * (b gchoose (n - k))"
      by (simp add: gbinomial_pochhammer pw)
  qed
  finally show ?thesis by simp
qed

lemma convolution_gbinomial:
  "convolution (map (\<lambda>x k. x gchoose k) xs) n = (sum_list xs) gchoose n"
proof (induction xs arbitrary: n)
  case Nil
  then show ?case by (simp add: gbinomial_0_left)
next
  case (Cons x xs)
  then show ?case by (simp add: gbinomial_Vandermonde_real)
qed

lemma row_product_Cons [simp]:
  "row_product (f # fs) (k # row) = f (nat k) * row_product fs row"
  by (simp add: row_product_def)

lemma row_product_Nil [simp]: "row_product [] row = 1" "row_product fs [] = 1"
  by (simp_all add: row_product_def)

lemma sum_cwr_tail:
  assumes IH: "\<And>a. a \<le> p \<Longrightarrow>
      (\<Sum>s\<leftarrow>combinations_with_replacement (map int [a..<p + 1]) r.
          row_product fs (row_diff (int a # s @ [int p]))) = convolution fs (p - a)"
  shows "a \<le> b \<Longrightarrow> b \<le> p + 1 \<Longrightarrow>
      (\<Sum>s\<leftarrow>combinations_with_replacement (map int [b..<p + 1]) (Suc r).
          row_product (f # fs) (row_diff (int a # s @ [int p])))
      = (\<Sum>k = b..<p + 1. f (k - a) * convolution fs (p - k))"
proof (induction "p + 1 - b" arbitrary: b)
  case 0
  then have "b = p + 1" by simp
  then show ?case by simp
next
  case (Suc m)
  then have bp: "b \<le> p" by simp
  have upt: "[b..<p + 1] = b # [Suc b..<p + 1]"
    using bp by (simp add: upt_conv_Cons del: upt_Suc)
  have rest: "(\<Sum>s\<leftarrow>combinations_with_replacement (map int [Suc b..<p + 1]) (Suc r).
          row_product (f # fs) (row_diff (int a # s @ [int p])))
      = (\<Sum>k = Suc b..<p + 1. f (k - a) * convolution fs (p - k))"
    using Suc.hyps(1)[of "Suc b"] Suc.hyps(2) Suc.prems bp by simp
  have first: "(\<Sum>s\<leftarrow>combinations_with_replacement (map int [b..<p + 1]) r.
          row_product (f # fs) (row_diff (int a # int b # s @ [int p])))
      = f (b - a) * convolution fs (p - b)"
  proof -
    have "nat (int b - int a) = b - a" by simp
    then have "(\<Sum>s\<leftarrow>combinations_with_replacement (map int [b..<p + 1]) r.
          row_product (f # fs) (row_diff (int a # int b # s @ [int p])))
       = (\<Sum>s\<leftarrow>combinations_with_replacement (map int [b..<p + 1]) r.
          f (b - a) * row_product fs (row_diff (int b # s @ [int p])))"
      by simp
    also have "\<dots> = f (b - a) * convolution fs (p - b)"
      using IH[OF bp] by (simp add: sum_list_const_mult)
    finally show ?thesis .
  qed
  have split: "(\<Sum>k = b..<p + 1. f (k - a) * convolution fs (p - k))
      = f (b - a) * convolution fs (p - b) + (\<Sum>k = Suc b..<p + 1. f (k - a) * convolution fs (p - k))"
    using bp by (simp add: sum.atLeast_Suc_lessThan del: sum.op_ivl_Suc)
  have "(\<Sum>s\<leftarrow>combinations_with_replacement (map int [b..<p + 1]) (Suc r).
          row_product (f # fs) (row_diff (int a # s @ [int p])))
     = (\<Sum>s\<leftarrow>combinations_with_replacement (map int [b..<p + 1]) r.
          row_product (f # fs) (row_diff (int a # int b # s @ [int p])))
       + (\<Sum>s\<leftarrow>combinations_with_replacement (map int [Suc b..<p + 1]) (Suc r).
          row_product (f # fs) (row_diff (int a # s @ [int p])))"
    unfolding upt by (simp add: comp_def del: upt_Suc)
  then show ?case using first rest split by simp
qed

lemma convolution_single: "convolution [f] n = f n"
proof -
  have "(\<Sum>k\<le>n. f k * (if n - k = 0 then 1 else 0)) = (\<Sum>k\<le>n. if k = n then f k else 0)"
    by (rule sum.cong) auto
  then show ?thesis by simp
qed

lemma sum_cwr_convolution:
  "length fs = Suc r \<Longrightarrow> a \<le> p \<Longrightarrow>
     (\<Sum>s\<leftarrow>combinations_with_replacement (map int [a..<p + 1]) r.
        row_product fs (row_diff (int a # s @ [int p]))) = convolution fs (p - a)"
proof (induction r arbitrary: fs a)
  case 0
  then obtain f where fs: "fs = [f]" by (cases fs) auto
  have "nat (int p - int a) = p - a" by simp
  then show ?case using 0 unfolding fs convolution_single by (simp del: upt_Suc)
next
  case (Suc r)
  then obtain f fs' where fs: "fs = f # fs'" and len: "length fs' = Suc r"
    by (cases fs) auto
  have "(\<Sum>s\<leftarrow>combinations_with_replacement (map int [a..<p + 1]) (Suc r).
          row_product (f # fs') (row_diff (int a # s @ [int p])))
      = (\<Sum>k = a..<p + 1. f (k - a) * convolution fs' (p - k))"
    by (rule sum_cwr_tail[OF Suc.IH[OF len]]) (use Suc.prems in simp_all)
  also have "\<dots> = (\<Sum>k\<le>p - a. f k * convolution fs' (p - a - k))"
  proof (rule sum.reindex_bij_witness[where i = "\<lambda>k. k + a" and j = "\<lambda>k. k - a"])
  qed (use Suc.prems in auto)
  finally show ?case by (simp add: fs)
qed

lemma sum_multi_index_matrix_convolution:
  assumes "length fs = Suc d"
  shows "(\<Sum>row\<leftarrow>multi_index_matrix p d. row_product fs row) = convolution fs p"
proof -
  have "(\<Sum>row\<leftarrow>multi_index_matrix p d. row_product fs row)
      = (\<Sum>s\<leftarrow>rev (combinations_with_replacement (map int [0..<p + 1]) d).
           row_product fs (row_diff (0 # s @ [int p])))"
    unfolding mim_unfold by (simp add: comp_def del: upt_Suc)
  also have "\<dots> = (\<Sum>s\<leftarrow>combinations_with_replacement (map int [0..<p + 1]) d.
           row_product fs (row_diff (int 0 # s @ [int p])))"
    by (simp add: rev_map[symmetric] sum_list_rev del: upt_Suc)
  also have "\<dots> = convolution fs (p - 0)"
    by (rule sum_cwr_convolution[OF assms]) simp
  finally show ?thesis by simp
qed

section \<open>The table of the shape-function kernel\<close>

lemma int64_wrap_id: "- (2 ^ 63) \<le> x \<Longrightarrow> x < 2 ^ 63 \<Longrightarrow> int64_wrap x = x"
  by (simp add: int64_wrap_def)

lemma fact_20_bound: "(fact 20 :: int) < 2 ^ 63"
  by (simp add: fact_numeral)

lemma fact_le_20_bound: "n \<le> 20 \<Longrightarrow> (fact n :: int) < 2 ^ 63"
proof -
  assume "n \<le> 20"
  then have "(fact n :: int) \<le> fact 20" by (rule fact_mono)
  then show ?thesis using fact_20_bound by linarith
qed

lemma multiply_accumulate_from_fact:
  "n \<le> 20 \<Longrightarrow> a \<le> n \<Longrightarrow>
     multiply_accumulate_from (fact a) (map int [Suc a..<Suc n]) = map fact [Suc a..<Suc n]"
proof (induction "n - a" arbitrary: a)
  case 0
  then show ?case by simp
next
  case (Suc m)
  then have an: "Suc a \<le> n" by simp
  have upt: "[Suc a..<Suc n] = Suc a # [Suc (Suc a)..<Suc n]"
    using an by (simp add: upt_conv_Cons del: upt_Suc)
  have w: "int64_wrap (fact a * int (Suc a)) = fact (Suc a)"
  proof -
    have e: "fact a * int (Suc a) = (fact (Suc a) :: int)" by (simp add: mult.commute)
    have "Suc a \<le> 20" using an Suc.prems by linarith
    then have ub: "(fact (Suc a) :: int) < 2 ^ 63" by (rule fact_le_20_bound)
    have lb: "- (2 ^ 63) \<le> (fact (Suc a) :: int)"
      by (rule order_trans[OF _ fact_ge_zero]) simp
    show ?thesis unfolding e using lb ub by (rule int64_wrap_id)
  qed
  have "multiply_accumulate_from (fact (Suc a)) (map int [Suc (Suc a)..<Suc n])
      = map fact [Suc (Suc a)..<Suc n]"
    using Suc.hyps(1)[of "Suc a"] Suc.hyps(2) Suc.prems an by simp
  then show ?case
    unfolding upt using w by (simp add: Let_def del: upt_Suc fact_Suc)
qed

lemma multiply_accumulate_fact:
  assumes "p \<le> 20"
  shows "multiply_accumulate (map int [1..<p + 1]) = map fact [1..<p + 1]"
proof (cases p)
  case 0
  then show ?thesis by (simp add: multiply_accumulate_def)
next
  case (Suc q)
  have upt: "[1..<p + 1] = 1 # [Suc 1..<Suc p]"
    using Suc by (simp add: upt_conv_Cons del: upt_Suc)
  have "multiply_accumulate_from (fact 1) (map int [Suc 1..<Suc p]) = map fact [Suc 1..<Suc p]"
    by (rule multiply_accumulate_from_fact) (use assms Suc in simp_all)
  then show ?thesis
    unfolding upt by (simp add: multiply_accumulate_def del: upt_Suc)
qed

lemma map2_mult_map:
  "map2 (*) (map f xs) (map g xs) = map (\<lambda>x. f x * (g x :: real)) xs"
  by (induction xs) simp_all

lemma cumprod_from_shifted:
  "m \<le> n \<Longrightarrow>
   cumprod_from (map (\<lambda>b. \<Prod>j<m. real p * b - real j) bc)
       (map (\<lambda>t. map (\<lambda>b. real p * b - real t) bc) [m..<n])
     = map (\<lambda>k. map (\<lambda>b. \<Prod>j<k. real p * b - real j) bc) [Suc m..<Suc n]"
proof (induction "n - m" arbitrary: m)
  case 0
  then show ?case by simp
next
  case (Suc d)
  then have mn: "m < n" by simp
  have upt1: "[m..<n] = m # [Suc m..<n]" using mn by (simp add: upt_conv_Cons)
  have upt2: "[Suc m..<Suc n] = Suc m # [Suc (Suc m)..<Suc n]"
    using mn by (simp add: upt_conv_Cons del: upt_Suc)
  have step: "map2 (*) (map (\<lambda>b. \<Prod>j<m. real p * b - real j) bc) (map (\<lambda>b. real p * b - real m) bc)
      = map (\<lambda>b. \<Prod>j<Suc m. real p * b - real j) bc"
    by (simp add: map2_mult_map)
  have IH: "cumprod_from (map (\<lambda>b. \<Prod>j<Suc m. real p * b - real j) bc)
       (map (\<lambda>t. map (\<lambda>b. real p * b - real t) bc) [Suc m..<n])
     = map (\<lambda>k. map (\<lambda>b. \<Prod>j<k. real p * b - real j) bc) [Suc (Suc m)..<Suc n]"
    using Suc.hyps(1)[of "Suc m"] Suc.hyps(2) mn by simp
  show ?case
    unfolding upt1 upt2 by (simp only: list.map cumprod_from.simps Let_def step IH)
qed

lemma cumprod_rows_shifted_table:
  "cumprod_rows (shifted_table bc p)
     = map (\<lambda>k. map (\<lambda>b. \<Prod>j<k. real p * b - real j) bc) [0..<Suc p]"
proof -
  have ones: "replicate (length bc) (1::real) = map (\<lambda>b. \<Prod>j<0. real p * b - real j) bc"
    by (simp add: map_replicate_const)
  have upt: "[0..<Suc p] = 0 # [Suc 0..<Suc p]"
    by (simp add: upt_conv_Cons del: upt_Suc)
  have "cumprod_from (map (\<lambda>b. \<Prod>j<0. real p * b - real j) bc)
       (map (\<lambda>t. map (\<lambda>b. real p * b - real t) bc) [0..<p])
     = map (\<lambda>k. map (\<lambda>b. \<Prod>j<k. real p * b - real j) bc) [Suc 0..<Suc p]"
    by (rule cumprod_from_shifted) simp
  then show ?thesis
    unfolding shifted_table_def cumprod_rows_def upt ones by (simp del: upt_Suc)
qed

lemma map2_map_map: "map2 h (map f xs) (map g xs) = map (\<lambda>x. h (f x) (g x)) xs"
  by (induction xs) simp_all

lemma gbinomial_as_prod: "(a :: real) gchoose k = (\<Prod>j<k. a - real j) * (1 / real_of_int (fact k))"
  by (simp add: gbinomial_prod_rev atLeast0LessThan)

lemma binomial_table:
  assumes "p \<le> 20"
  shows "scale_rows (cumprod_rows (shifted_table bc p))
           (map (\<lambda>v. 1 / real_of_int v) (multiply_accumulate (map int [1..<p + 1])))
         = map (\<lambda>k. map (\<lambda>b. (real p * b) gchoose k) bc) [0..<Suc p]"
proof -
  have upt: "[0..<Suc p] = 0 # [Suc 0..<Suc p]"
    by (simp add: upt_conv_Cons del: upt_Suc)
  have "map2 (\<lambda>row c. map (\<lambda>v. v * c) row)
          (map (\<lambda>k. map (\<lambda>b. \<Prod>j<k. real p * b - real j) bc) [Suc 0..<Suc p])
          (map (\<lambda>k. 1 / real_of_int (fact k)) [Suc 0..<Suc p])
      = map (\<lambda>k. map (\<lambda>b. (real p * b) gchoose k) bc) [Suc 0..<Suc p]"
    unfolding map2_map_map by (simp add: gbinomial_as_prod comp_def del: upt_Suc fact_Suc)
  then show ?thesis
    unfolding cumprod_rows_shifted_table multiply_accumulate_fact[OF assms] upt
    by (simp add: scale_rows_def comp_def del: upt_Suc fact_Suc)
qed

section \<open>Partition of unity of the shape functions\<close>

lemma np_index_in_range:
  "0 \<le> i \<Longrightarrow> nat i < length xs \<Longrightarrow> np_index xs i = Inr (xs ! nat i)"
  by (simp add: np_index_def)

lemma mapM_Inr:
  "(\<And>x. x \<in> set xs \<Longrightarrow> f x = Inr (h x)) \<Longrightarrow> mapM f xs = Inr (map h xs)"
  by (induction xs) simp_all

lemma gather_binomial_table:
  assumes len: "length row = length bc"
    and rng: "\<And>k. k \<in> set row \<Longrightarrow> 0 \<le> k \<and> k \<le> int p"
  shows "gather (map (\<lambda>k. map (\<lambda>b. g b k) bc) [0..<Suc p]) row (map int [0..<length bc])
         = Inr (map2 (\<lambda>f k. f (nat k)) (map (\<lambda>b k. g b k) bc) row)"
proof -
  let ?A = "map (\<lambda>k. map (\<lambda>b. g b k) bc) [0..<Suc p]"
  let ?ps = "zip row (map int [0..<length bc])"
  have bc2: "broadcast2 row (map int [0..<length bc]) = Inr ?ps"
    by (simp add: broadcast2_def len)
  have each: "(case x of (k, i) \<Rightarrow> case np_index ?A k of Inl e \<Rightarrow> Inl e | Inr r \<Rightarrow> np_index r i)
      = Inr (case x of (k, i) \<Rightarrow> g (bc ! nat i) (nat k))" if "x \<in> set ?ps" for x
  proof -
    obtain k i where x: "x = (k, i)" by (cases x)
    from that x have k: "k \<in> set row" and i: "i \<in> set (map int [0..<length bc])"
      by (auto dest: set_zip_leftD set_zip_rightD)
    from rng[OF k] have k0: "0 \<le> k" and kp: "nat k < Suc p" by auto
    from i have i0: "0 \<le> i" and il: "nat i < length bc" by auto
    have "np_index ?A k = Inr (?A ! nat k)"
      by (rule np_index_in_range[OF k0]) (use kp in simp)
    moreover have "?A ! nat k = map (\<lambda>b. g b (nat k)) bc"
      using kp by (simp del: upt_Suc)
    moreover have "np_index (map (\<lambda>b. g b (nat k)) bc) i = Inr (g (bc ! nat i) (nat k))"
      using np_index_in_range[OF i0, of "map (\<lambda>b. g b (nat k)) bc"] il by simp
    ultimately show ?thesis by (simp add: x)
  qed
  have "mapM (\<lambda>(k, i). case np_index ?A k of Inl e \<Rightarrow> Inl e | Inr r \<Rightarrow> np_index r i) ?ps
      = Inr (map (\<lambda>(k, i). g (bc ! nat i) (nat k)) ?ps)"
    by (rule mapM_Inr) (rule each)
  moreover have "map (\<lambda>(k, i). g (bc ! nat i) (nat k)) ?ps
      = map2 (\<lambda>f k. f (nat k)) (map (\<lambda>b k. g b k) bc) row"
    by (rule nth_equalityI) (simp_all add: len)
  ultimately show ?thesis
    unfolding gather_def bc2 by simp
qed

lemma multiply_accumulate_nonzero:
  assumes "p \<le> 20"
  shows "0 \<notin> set (multiply_accumulate (map int [1..<p + 1]))"
  unfolding multiply_accumulate_fact[OF assms] by (auto simp del: upt_Suc)

lemma simplex_shape_function_value:
  assumes p: "p \<le> 20" "p \<noteq> 1" and bc: "bc \<noteq> []"
  shows "simplex_shape_function bc p None
         = Inr (map (row_product (map (\<lambda>b k. (real p * b) gchoose k) bc))
                  (multi_index_matrix p (length bc - 1)))"
proof -
  let ?mi = "multi_index_matrix p (length bc - 1)"
  let ?A = "map (\<lambda>k. map (\<lambda>b. (real p * b) gchoose k) bc) [0..<Suc p]"
  have row: "(case gather ?A row (map int [0..<length bc]) of
                Inl e \<Rightarrow> Inl e | Inr vs \<Rightarrow> Inr (prod_list vs))
      = Inr (row_product (map (\<lambda>b k. (real p * b) gchoose k) bc) row)"
    if "row \<in> set ?mi" for row
  proof -
    from multi_index_matrix_row[OF that] bc
    have len: "length row = length bc" and nn: "\<forall>k\<in>set row. 0 \<le> k"
      and s: "sum_list row = int p" by simp_all
    have "0 \<le> k \<and> k \<le> int p" if "k \<in> set row" for k
      using member_le_sum_list[of k row] nn s that by fastforce
    then have "gather ?A row (map int [0..<length bc])
        = Inr (map2 (\<lambda>f k. f (nat k)) (map (\<lambda>b k. (real p * b) gchoose k) bc) row)"
      by (intro gather_binomial_table[OF len])
    then show ?thesis by (simp add: row_product_def)
  qed
  have "mapM (\<lambda>row. case gather ?A row (map int [0..<length bc]) of
                Inl e \<Rightarrow> Inl e | Inr vs \<Rightarrow> Inr (prod_list vs)) ?mi
      = Inr (map (row_product (map (\<lambda>b k. (real p * b) gchoose k) bc)) ?mi)"
    by (rule mapM_Inr) (rule row)
  then show ?thesis
    unfolding simplex_shape_function_def Let_def binomial_table[OF p(1)]
    using p(2) bc multiply_accumulate_nonzero[OF p(1)]
    by (simp del: upt_Suc)
qed

lemma simplex_shape_function_partition_of_unity:
  assumes p: "p \<le> 20" and s: "sum_list bc = 1"
  shows "\<exists>phi. simplex_shape_function bc p None = Inr phi
           \<and> length phi = (p + (length bc - 1)) choose (length bc - 1)
           \<and> sum_list phi = 1"
proof (cases "p = 1")
  case True
  have "bc \<noteq> []" using s by auto
  then obtain m where m: "length bc = Suc m" by (cases bc) auto
  show ?thesis using True s m by (simp add: simplex_shape_function_def)
next
  case False
  have bc: "bc \<noteq> []" using s by auto
  let ?fs = "map (\<lambda>b k. (real p * b) gchoose k) bc"
  let ?mi = "multi_index_matrix p (length bc - 1)"
  have len: "length ?fs = Suc (length bc - 1)" using bc by (cases bc) simp_all
  have fs: "?fs = map (\<lambda>x k. x gchoose k) (map (\<lambda>b. real p * b) bc)"
    by (simp add: comp_def)
  have total: "sum_list (map (\<lambda>b. real p * b) bc) = real p"
    by (simp add: sum_list_const_mult s)
  have "convolution ?fs p = (sum_list (map (\<lambda>b. real p * b) bc)) gchoose p"
    unfolding fs by (rule convolution_gbinomial)
  also have "\<dots> = 1"
    unfolding total by (simp flip: binomial_gbinomial)
  finally have c: "convolution ?fs p = 1" .
  have "sum_list (map (row_product ?fs) ?mi) = convolution ?fs p"
    by (rule sum_multi_index_matrix_convolution[OF len])
  also note c
  finally have "sum_list (map (row_product ?fs) ?mi) = 1" .
  then show ?thesis
    unfolding simplex_shape_function_value[OF p False bc]
    by (simp add: length_multi_index_matrix)
qed

text \<open>
  Claim C1. The claim is that the shape-function values sum to 1 for every degree
  \<open>p\<close>. \<open>simplex_shape_function_partition_of_unity\<close> above proves this (over the reals)
  for every \<open>p \<le> 20\<close>, every dimension and every point whose coordinates sum to 1,
  including the constant basis \<open>[1]\<close> at \<open>p = 0\<close>. From \<open>p = 21\<close> on the running product
  \<open>1 * 2 * ... * p\<close> of the \<^verbatim>\<open>np.int_\<close> array \<open>c\<close> no longer fits 64 bits and wraps, so the
  normalising factors \<open>P\<close> are no longer \<open>1 / k!\<close>. The theorem evaluates the kernel at
  \<open>p = 21\<close> on the vertex \<open>(1, 0)\<close> of an interval: the values sum to about \<open>-12.02\<close>.
\<close>

theorem simplex_shape_function_overflow_at_21:
  "simplex_shape_function [1, 0] 21 None
     = Inr (- (64965492466875 / 5403251710789) # replicate 21 0)
   \<and> sum_list (- (64965492466875 / 5403251710789) # replicate 21 (0::real)) \<noteq> 1
   \<and> multiply_accumulate (map int [1..<21 + 1]) ! 20 = - 4249290049419214848"
proof -
  have "simplex_shape_function [1, 0] 21 None
     = Inr (- (64965492466875 / 5403251710789) # replicate 21 0)"
    by code_simp
  moreover have "sum_list (- (64965492466875 / 5403251710789) # replicate 21 (0::real)) \<noteq> 1"
    by (simp add: sum_list_replicate)
  moreover have "multiply_accumulate (map int [1..<21 + 1]) ! 20 = - 4249290049419214848"
    by code_simp
  ultimately show ?thesis by blast
qed

section \<open>COO to CSR conversion and the sparse products\<close>

lemma length_filter_less_Suc:
  "length (filter (\<lambda>e. fst e < Suc i) E)
     = length (filter (\<lambda>e. fst e < i) E) + length (filter (\<lambda>e. fst e = i) E)"
  by (induction E) auto

lemma length_concat_rows:
  "length (concat (map (\<lambda>k. filter (\<lambda>e. fst e = k) E) [0..<i]))
     = length (filter (\<lambda>e. fst e < i) E)"
  by (induction i) (simp_all add: length_filter_less_Suc)

lemma length_filter_all_rows:
  "\<forall>e\<in>set E. fst e < M \<Longrightarrow> length (filter (\<lambda>e. fst e < M) E) = length E"
  by (induction E) auto

lemma nth_segment:
  "map ((!) (xs @ ys @ zs)) [length xs..<length xs + length ys] = ys"
  by (rule nth_equalityI) (simp_all add: nth_append)

lemma csr_row_loop_sum:
  "(\<And>jj. jj \<in> set jjs \<Longrightarrow> jj < length Aj \<and> jj < length Ax \<and> Aj ! jj < length Xx) \<Longrightarrow>
   csr_row_loop Aj Ax Xx s jjs = Inr (s + (\<Sum>jj\<leftarrow>jjs. Ax ! jj * Xx ! (Aj ! jj)))"
  by (induction jjs arbitrary: s) (simp_all add: add.assoc)

lemma sum_list_filter_if:
  "(\<Sum>e\<leftarrow>filter P E. f e) = (\<Sum>e\<leftarrow>E. if P e then f e else (0::real))"
  by (induction E) simp_all

lemma dense_row_sum:
  "\<forall>e\<in>set E. fst (snd e) < N \<Longrightarrow>
   (\<Sum>j<N. (\<Sum>e\<leftarrow>E. if fst e = i \<and> fst (snd e) = j then snd (snd e) else 0) * x ! j)
     = (\<Sum>e\<leftarrow>E. if fst e = i then snd (snd e) * (x ! fst (snd e) :: real) else 0)"
proof (induction E)
  case Nil
  then show ?case by simp
next
  case (Cons e E)
  have one: "(\<Sum>j<N. (if fst e = i \<and> fst (snd e) = j then snd (snd e) else 0) * x ! j)
      = (if fst e = i then snd (snd e) * x ! fst (snd e) else 0)"
  proof (cases "fst e = i")
    case True
    have "(\<Sum>j<N. (if fst (snd e) = j then snd (snd e) else 0) * x ! j)
        = (\<Sum>j<N. if j = fst (snd e) then snd (snd e) * x ! j else 0)"
      by (rule sum.cong) auto
    also have "\<dots> = snd (snd e) * x ! fst (snd e)"
      using Cons.prems by (simp add: sum.delta)
    finally show ?thesis using True by simp
  next
    case False
    then show ?thesis by simp
  qed
  have "(\<Sum>j<N. (\<Sum>e'\<leftarrow>e # E. if fst e' = i \<and> fst (snd e') = j then snd (snd e') else 0) * x ! j)
      = (\<Sum>j<N. (if fst e = i \<and> fst (snd e) = j then snd (snd e) else 0) * x ! j)
        + (\<Sum>j<N. (\<Sum>e'\<leftarrow>E. if fst e' = i \<and> fst (snd e') = j then snd (snd e') else 0) * x ! j)"
    by (simp add: distrib_right sum.distrib)
  then show ?case using one Cons by simp
qed


lemma coo_tocsr_value:
  assumes len: "length Ai = length Ax" "length Aj = length Ax"
    and rows: "\<forall>r\<in>set Ai. r < M"
  shows "coo_tocsr (Ai, Aj) Ax (M, N)
     = Inr (map (\<lambda>i. length (filter (\<lambda>e. fst e < i) (zip Ai (zip Aj Ax)))) [0..<Suc M],
            map (\<lambda>e. fst (snd e)) (concat (map (\<lambda>i. filter (\<lambda>e. fst e = i) (zip Ai (zip Aj Ax))) [0..<M])),
            map (\<lambda>e. snd (snd e)) (concat (map (\<lambda>i. filter (\<lambda>e. fst e = i) (zip Ai (zip Aj Ax))) [0..<M])))"
proof -
  let ?E = "zip Ai (zip Aj Ax)"
  have "\<forall>e\<in>set ?E. fst e < M"
    using rows by (auto dest: set_zip_leftD)
  then have "length (filter (\<lambda>e. fst e < M) ?E) = length ?E"
    by (rule length_filter_all_rows)
  then have last: "length (filter (\<lambda>e. fst e < M) ?E) = length Ax"
    using len by simp
  show ?thesis
    using len rows last
    by (simp add: coo_tocsr_def coo_tocsr_kernel_def Let_def list_all_iff)
qed

lemma csr_matvec_of_coo:
  fixes Ai Aj :: "nat list" and Ax x :: "real list"
  assumes len: "length Ai = length Ax" "length Aj = length Ax"
    and rows: "\<forall>r\<in>set Ai. r < M" and cols: "\<forall>c\<in>set Aj. c < N" and x: "length x = N"
  defines "E \<equiv> zip Ai (zip Aj Ax)"
  defines "S \<equiv> concat (map (\<lambda>i. filter (\<lambda>e. fst e = i) E) [0..<M])"
  shows "csr_matvec M N (map (\<lambda>i. length (filter (\<lambda>e. fst e < i) E)) [0..<Suc M])
           (map (\<lambda>e. fst (snd e)) S) (map (\<lambda>e. snd (snd e)) S) x (replicate M 0)
         = Inr (dense_matvec (coo_dense (Ai, Aj) Ax) (M, N) x)"
proof -
  let ?L = "\<lambda>i. length (filter (\<lambda>e. fst e < i) E)"
  let ?g = "\<lambda>i. filter (\<lambda>e. fst e = i) E"
  let ?Bp = "map ?L [0..<Suc M]"
  let ?Bj = "map (\<lambda>e. fst (snd e)) S"
  let ?Bx = "map (\<lambda>e. snd (snd e)) S"
  have Ecols: "\<forall>e\<in>set E. fst (snd e) < N"
  proof
    fix e assume e: "e \<in> set E"
    obtain r c v where rcv: "e = (r, c, v)" by (cases e) auto
    from e have "(c, v) \<in> set (zip Aj Ax)"
      unfolding E_def rcv by (rule set_zip_rightD)
    then have "c \<in> set Aj" by (rule set_zip_leftD)
    then show "fst (snd e) < N" using cols rcv by simp
  qed
  have Sset: "set S \<subseteq> set E" unfolding S_def by auto
  have row: "(if Suc i < length ?Bp \<and> i < length (replicate M (0::real))
              then csr_row_loop ?Bj ?Bx x (replicate M 0 ! i) [?Bp ! i..<?Bp ! Suc i]
              else Inl OutOfBounds)
      = Inr (\<Sum>j<N. coo_dense (Ai, Aj) Ax i j * x ! j)" if "i \<in> set [0..<M]" for i
  proof -
    from that have iM: "i < M" by simp
    have split: "S = concat (map ?g [0..<i]) @ ?g i @ concat (map ?g [Suc i..<M])"
    proof -
      obtain k where k: "M = i + k" using iM less_imp_add_positive by blast
      have "[0..<i + k] = [0..<i] @ [i..<i + k]"
        by (rule upt_add_eq_append) simp
      moreover have "[i..<M] = i # [Suc i..<M]"
        using iM by (rule upt_conv_Cons)
      ultimately have "[0..<M] = [0..<i] @ i # [Suc i..<M]"
        unfolding k by simp
      then have "map ?g [0..<M] = map ?g [0..<i] @ ?g i # map ?g [Suc i..<M]"
        by (simp only: map_append list.map)
      then show ?thesis unfolding S_def by (simp only: concat_append concat.simps)
    qed
    have Li: "length (concat (map ?g [0..<i])) = ?L i" by (rule length_concat_rows)
    have LSi: "?L (Suc i) = ?L i + length (?g i)" by (rule length_filter_less_Suc)
    have seg: "map ((!) S) [?L i..<?L (Suc i)] = ?g i"
      using nth_segment[of "concat (map ?g [0..<i])" "?g i" "concat (map ?g [Suc i..<M])"]
      unfolding split[symmetric] Li LSi .
    have "length S = ?L i + length (?g i) + length (concat (map ?g [Suc i..<M]))"
      using arg_cong[OF split, of length] unfolding length_append Li by simp
    then have lenS: "?L (Suc i) \<le> length S"
      unfolding LSi by simp
    have bounds: "jj < length ?Bj \<and> jj < length ?Bx \<and> ?Bj ! jj < length x"
      if "jj \<in> set [?L i..<?L (Suc i)]" for jj
    proof -
      from that lenS have jj: "jj < length S" by simp
      then have "S ! jj \<in> set E" using Sset by (meson nth_mem subsetD)
      then show ?thesis using jj Ecols x by simp
    qed
    have "csr_row_loop ?Bj ?Bx x 0 [?L i..<?L (Suc i)]
        = Inr (0 + (\<Sum>jj\<leftarrow>[?L i..<?L (Suc i)]. ?Bx ! jj * x ! (?Bj ! jj)))"
      by (rule csr_row_loop_sum) (rule bounds)
    also have "(\<Sum>jj\<leftarrow>[?L i..<?L (Suc i)]. ?Bx ! jj * x ! (?Bj ! jj))
        = (\<Sum>jj\<leftarrow>[?L i..<?L (Suc i)]. snd (snd (S ! jj)) * x ! fst (snd (S ! jj)))"
    proof (rule arg_cong[where f = sum_list], rule map_cong[OF refl])
      fix jj assume "jj \<in> set [?L i..<?L (Suc i)]"
      then have "jj < length S" using lenS by simp
      then show "?Bx ! jj * x ! (?Bj ! jj) = snd (snd (S ! jj)) * x ! fst (snd (S ! jj))"
        by simp
    qed
    also have "\<dots> = (\<Sum>e\<leftarrow>map ((!) S) [?L i..<?L (Suc i)]. snd (snd e) * x ! fst (snd e))"
      by (simp add: comp_def)
    also have "\<dots> = (\<Sum>e\<leftarrow>E. if fst e = i then snd (snd e) * x ! fst (snd e) else 0)"
      unfolding seg by (rule sum_list_filter_if)
    also have "\<dots> = (\<Sum>j<N. coo_dense (Ai, Aj) Ax i j * x ! j)"
      using dense_row_sum[OF Ecols, of i x] by (simp add: coo_dense_def E_def)
    finally have "csr_row_loop ?Bj ?Bx x 0 [?L i..<?L (Suc i)]
        = Inr (\<Sum>j<N. coo_dense (Ai, Aj) Ax i j * x ! j)" by simp
    moreover have "?Bp ! i = ?L i" "?Bp ! Suc i = ?L (Suc i)"
      using iM by (simp_all add: nth_map_upt del: upt_Suc)
    ultimately show ?thesis using iM by (simp del: upt_Suc)
  qed
  show ?thesis
    unfolding csr_matvec_def dense_matvec_def fst_conv snd_conv
    by (rule mapM_Inr) (rule row)
qed

lemma length_filter_less_mono:
  "i \<le> j \<Longrightarrow> length (filter (\<lambda>e. fst e < i) E) \<le> length (filter (\<lambda>e. fst e < (j::nat)) E)"
  by (induction E) auto

lemma sorted_row_pointer:
  "sorted (map (\<lambda>i. length (filter (\<lambda>e. fst e < i) E)) [0..<n])"
proof -
  have "sorted_wrt (\<le>) [0..<n]" by simp
  then have "sorted_wrt (\<lambda>i j. length (filter (\<lambda>e. fst e < i) E) \<le> length (filter (\<lambda>e. fst e < j) E)) [0..<n]"
    by (rule sorted_wrt_mono_rel[rotated]) (rule length_filter_less_mono)
  then show ?thesis by (simp only: sorted_wrt_map)
qed

text \<open>
  Claim C2, as amended. For a COO triple whose two index rows are as long as \<open>values\<close> and
  whose indices lie inside the shape (sorted or not, with or without repeated positions),
  \<open>coo_tocsr\<close> returns a CSR triple whose row pointer has \<open>M + 1\<close> entries, starts at 0,
  ends at \<open>nnz\<close> and never decreases, and whose column and value arrays keep one entry
  per COO entry; \<open>csr_spmm\<close> with this triple and a vector returns the product of the
  dense matrix, repeated positions added up, with the vector.
\<close>

theorem coo_tocsr_then_csr_spmm:
  assumes "length (fst indices) = length values" and "length (snd indices) = length values"
    and "\<forall>r\<in>set (fst indices). r < M" and "\<forall>c\<in>set (snd indices). c < N"
    and "length x = N"
  shows "\<exists>crow col dat.
           coo_tocsr indices values (M, N) = Inr (crow, col, dat)
           \<and> length crow = M + 1 \<and> crow ! 0 = 0 \<and> crow ! M = length values \<and> sorted crow
           \<and> length col = length values \<and> length dat = length values
           \<and> csr_spmm crow col (vector dat) (M, N) (vector x)
               = Inr (vector (dense_matvec (coo_dense indices values) (M, N) x))"
proof -
  obtain Ai Aj where ind: "indices = (Ai, Aj)" by (cases indices)
  let ?E = "zip Ai (zip Aj values)"
  let ?L = "\<lambda>i. length (filter (\<lambda>e. fst e < i) ?E)"
  let ?S = "concat (map (\<lambda>i. filter (\<lambda>e. fst e = i) ?E) [0..<M])"
  let ?crow = "map ?L [0..<Suc M]"
  let ?col = "map (\<lambda>e. fst (snd e)) ?S"
  let ?dat = "map (\<lambda>e. snd (snd e)) ?S"
  from assms ind have len: "length Ai = length values" "length Aj = length values"
    and rows: "\<forall>r\<in>set Ai. r < M" and cols: "\<forall>c\<in>set Aj. c < N" by simp_all
  have conv: "coo_tocsr indices values (M, N) = Inr (?crow, ?col, ?dat)"
    unfolding ind by (rule coo_tocsr_value[OF len rows])
  have "\<forall>e\<in>set ?E. fst e < M" using rows by (auto dest: set_zip_leftD)
  then have all: "?L M = length values"
    using length_filter_all_rows[of ?E M] len by simp
  have lenS: "length ?S = length values"
    using length_concat_rows[of ?E M] all by simp
  have c0: "?crow ! 0 = 0" by (simp add: nth_map_upt del: upt_Suc)
  have cM: "?crow ! M = length values"
    using all by (simp add: nth_map_upt del: upt_Suc)
  have srt: "sorted ?crow" by (rule sorted_row_pointer)
  have mv: "csr_matvec M N ?crow ?col ?dat x (replicate M 0)
      = Inr (dense_matvec (coo_dense (Ai, Aj) values) (M, N) x)"
    by (rule csr_matvec_of_coo[OF len rows cols assms(5)])
  have "csr_spmm ?crow ?col (vector ?dat) (M, N) (vector x)
      = Inr (vector (dense_matvec (coo_dense indices values) (M, N) x))"
    unfolding csr_spmm_def Let_def fst_conv snd_conv ind
    by (simp add: ndim_def vector_def mv del: upt_Suc) (simp add: dense_matvec_def)
  then show ?thesis
    using conv c0 cM srt lenS by (intro exI conjI) (simp_all del: upt_Suc)
qed

theorem coo_tocsr_then_csr_spmm_witness:
  "coo_tocsr ([2, 0, 2, 0], [0, 3, 0, 0]) [1, 2, 3, 4] (3, 4)
       = Inr ([0, 2, 2, 4], [3, 0, 0, 0], [2, 4, 1, 3])
   \<and> csr_spmm [0, 2, 2, 4] [3, 0, 0, 0] (vector [2, 4, 1, 3]) (3, 4) (vector [10, 0, 0, 100])
       = Inr (vector (dense_matvec (coo_dense ([2, 0, 2, 0], [0, 3, 0, 0]) [1, 2, 3, 4]) (3, 4)
                [10, 0, 0, 100]))
   \<and> dense_matvec (coo_dense ([2, 0, 2, 0], [0, 3, 0, 0]) [1, 2, 3, 4]) (3, 4) [10, 0, 0, 100]
       = [240, 0, 40]"
proof -
  have e: "coo_tocsr ([2, 0, 2, 0], [0, 3, 0, 0]) [1, 2, 3, 4] (3, 4)
       = Inr ([0, 2, 2, 4], [3, 0, 0, 0], [2, 4, 1, 3])"
    by code_simp
  have d: "dense_matvec (coo_dense ([2, 0, 2, 0], [0, 3, 0, 0]) [1, 2, 3, 4]) (3, 4) [10, 0, 0, 100]
       = [240, 0, 40]"
    by code_simp
  show ?thesis
    using coo_tocsr_then_csr_spmm[of "([2, 0, 2, 0], [0, 3, 0, 0])" "[1, 2, 3, 4]" 3 4
        "[10, 0, 0, 100]"]
    unfolding e by (simp add: d)
qed

text \<open>
  The claim as stated also says that repeated \<open>(row, col)\<close> pairs are summed into a single
  CSR entry. They are not: the two entries at position \<open>(0, 0)\<close> below both stay.
\<close>

theorem coo_tocsr_keeps_duplicates:
  "coo_tocsr ([0, 0], [0, 0]) [1, 2] (1, 1) = Inr ([0, 2], [0, 0], [1, 2])"
  by code_simp

lemma coo_matvec_loop_value:
  assumes "\<And>n. n \<in> set ns \<Longrightarrow>
      n < length Ai \<and> n < length Aj \<and> n < length Ax \<and> Ai ! n < length Yx \<and> Aj ! n < length Xx"
  shows "coo_matvec_loop Ai Aj Ax Xx Yx ns
     = Inr (map (\<lambda>i. Yx ! i + (\<Sum>n\<leftarrow>ns. if Ai ! n = i then Ax ! n * Xx ! (Aj ! n) else 0))
              [0..<length Yx])"
  using assms
proof (induction ns arbitrary: Yx)
  case Nil
  then show ?case by (simp add: map_nth)
next
  case (Cons n ns)
  let ?Y = "Yx[Ai ! n := Yx ! (Ai ! n) + Ax ! n * Xx ! (Aj ! n)]"
  have b: "n < length Ai \<and> n < length Aj \<and> n < length Ax \<and> Ai ! n < length Yx \<and> Aj ! n < length Xx"
    using Cons.prems by simp
  have "coo_matvec_loop Ai Aj Ax Xx ?Y ns
     = Inr (map (\<lambda>i. ?Y ! i + (\<Sum>n\<leftarrow>ns. if Ai ! n = i then Ax ! n * Xx ! (Aj ! n) else 0))
              [0..<length ?Y])"
    by (rule Cons.IH) (use Cons.prems in simp)
  also have "map (\<lambda>i. ?Y ! i + (\<Sum>n\<leftarrow>ns. if Ai ! n = i then Ax ! n * Xx ! (Aj ! n) else 0))
              [0..<length ?Y]
      = map (\<lambda>i. Yx ! i + (\<Sum>n\<leftarrow>n # ns. if Ai ! n = i then Ax ! n * Xx ! (Aj ! n) else 0))
              [0..<length Yx]"
    by (rule nth_equalityI) (simp_all add: nth_list_update)
  finally show ?case using b by simp
qed

lemma sum_list_over_zip:
  assumes "length Ai = nnz" "length Aj = nnz" "length Ax = nnz"
  shows "(\<Sum>n\<leftarrow>[0..<nnz]. f (Ai ! n) (Aj ! n) (Ax ! n))
       = (\<Sum>e\<leftarrow>zip Ai (zip Aj Ax). f (fst e) (fst (snd e)) (snd (snd e)))"
proof -
  have "zip Ai (zip Aj Ax) = map (\<lambda>n. (Ai ! n, Aj ! n, Ax ! n)) [0..<nnz]"
    by (rule nth_equalityI) (simp_all add: assms)
  then show ?thesis by (simp add: comp_def)
qed

lemma coo_matvec_dense:
  fixes Ai Aj :: "nat list" and Ax x :: "real list"
  assumes len: "length Ai = nnz" "length Aj = nnz" "length Ax = nnz"
    and rows: "\<forall>r\<in>set Ai. r < M" and cols: "\<forall>c\<in>set Aj. c < N" and x: "length x = N"
  shows "coo_matvec nnz Ai Aj Ax x (replicate M 0)
       = Inr (dense_matvec (coo_dense (Ai, Aj) Ax) (M, N) x)"
proof -
  let ?E = "zip Ai (zip Aj Ax)"
  have Ecols: "\<forall>e\<in>set ?E. fst (snd e) < N"
  proof
    fix e assume e: "e \<in> set ?E"
    obtain r c v where rcv: "e = (r, c, v)" by (cases e) auto
    from e have "(c, v) \<in> set (zip Aj Ax)"
      unfolding rcv by (rule set_zip_rightD)
    then have "c \<in> set Aj" by (rule set_zip_leftD)
    then show "fst (snd e) < N" using cols rcv by simp
  qed
  have "coo_matvec_loop Ai Aj Ax x (replicate M 0) [0..<nnz]
     = Inr (map (\<lambda>i. replicate M 0 ! i
                  + (\<Sum>n\<leftarrow>[0..<nnz]. if Ai ! n = i then Ax ! n * x ! (Aj ! n) else 0))
              [0..<length (replicate M (0::real))])"
    by (rule coo_matvec_loop_value) (use len rows cols x in auto)
  also have "map (\<lambda>i. replicate M 0 ! i
                  + (\<Sum>n\<leftarrow>[0..<nnz]. if Ai ! n = i then Ax ! n * x ! (Aj ! n) else 0))
              [0..<length (replicate M (0::real))]
      = map (\<lambda>i. \<Sum>j<N. coo_dense (Ai, Aj) Ax i j * x ! j) [0..<M]"
  proof (rule nth_equalityI)
    show "length (map (\<lambda>i. replicate M 0 ! i
                  + (\<Sum>n\<leftarrow>[0..<nnz]. if Ai ! n = i then Ax ! n * x ! (Aj ! n) else 0))
              [0..<length (replicate M (0::real))])
        = length (map (\<lambda>i. \<Sum>j<N. coo_dense (Ai, Aj) Ax i j * x ! j) [0..<M])"
      by simp
  next
    fix i
    assume "i < length (map (\<lambda>i. replicate M 0 ! i
                  + (\<Sum>n\<leftarrow>[0..<nnz]. if Ai ! n = i then Ax ! n * x ! (Aj ! n) else 0))
              [0..<length (replicate M (0::real))])"
    then have i: "i < M" by simp
    have "(\<Sum>n\<leftarrow>[0..<nnz]. if Ai ! n = i then Ax ! n * x ! (Aj ! n) else 0)
        = (\<Sum>e\<leftarrow>?E. if fst e = i then snd (snd e) * x ! fst (snd e) else 0)"
      by (rule sum_list_over_zip[OF len, of "\<lambda>r c v. if r = i then v * x ! c else 0"])
    also have "\<dots> = (\<Sum>j<N. coo_dense (Ai, Aj) Ax i j * x ! j)"
      using dense_row_sum[OF Ecols, of i x] by (simp add: coo_dense_def)
    finally show "map (\<lambda>i. replicate M 0 ! i
                  + (\<Sum>n\<leftarrow>[0..<nnz]. if Ai ! n = i then Ax ! n * x ! (Aj ! n) else 0))
              [0..<length (replicate M (0::real))] ! i
        = map (\<lambda>i. \<Sum>j<N. coo_dense (Ai, Aj) Ax i j * x ! j) [0..<M] ! i"
      using i by simp
  qed
  finally show ?thesis by (simp add: coo_matvec_def dense_matvec_def)
qed

lemma dense_row_sum_fun:
  fixes g :: "nat \<Rightarrow> real"
  assumes "\<forall>e\<in>set E. fst (snd e) < N"
  shows "(\<Sum>j<N. (\<Sum>e\<leftarrow>E. if fst e = i \<and> fst (snd e) = j then snd (snd e) else 0) * g j)
     = (\<Sum>e\<leftarrow>E. if fst e = i then snd (snd e) * g (fst (snd e)) else 0)"
proof -
  have "(\<Sum>j<N. (\<Sum>e\<leftarrow>E. if fst e = i \<and> fst (snd e) = j then snd (snd e) else 0) * g j)
      = (\<Sum>j<N. (\<Sum>e\<leftarrow>E. if fst e = i \<and> fst (snd e) = j then snd (snd e) else 0)
                  * map g [0..<N] ! j)"
    by (rule sum.cong) simp_all
  also have "\<dots> = (\<Sum>e\<leftarrow>E. if fst e = i then snd (snd e) * map g [0..<N] ! fst (snd e) else 0)"
    by (rule dense_row_sum[OF assms])
  also have "\<dots> = (\<Sum>e\<leftarrow>E. if fst e = i then snd (snd e) * g (fst (snd e)) else 0)"
    by (rule arg_cong[where f = sum_list], rule map_cong[OF refl]) (use assms in auto)
  finally show ?thesis .
qed

lemma csr_row_dense:
  fixes g :: "nat \<Rightarrow> real"
  assumes "\<forall>jj\<in>set jjs. col ! jj < N"
  shows "(\<Sum>jj\<leftarrow>jjs. vals ! jj * g (col ! jj))
       = (\<Sum>j<N. (\<Sum>jj\<leftarrow>jjs. if col ! jj = j then vals ! jj else 0) * g j)"
proof -
  let ?E = "map (\<lambda>jj. (i, col ! jj, vals ! jj)) jjs"
  have "\<forall>e\<in>set ?E. fst (snd e) < N" using assms by auto
  from dense_row_sum_fun[OF this, of i g] show ?thesis
    by (simp add: comp_def cong: if_cong)
qed

lemma coo_spmm_vector:
  assumes "length (fst indices) = length vals" and "length (snd indices) = length vals"
    and "\<forall>r\<in>set (fst indices). r < M" and "\<forall>c\<in>set (snd indices). c < N"
    and "length x = N"
  shows "coo_spmm indices (vector vals) (M, N) (vector x)
       = Inr (vector (dense_matvec (coo_dense indices vals) (M, N) x))"
proof -
  obtain Ai Aj where ind: "indices = (Ai, Aj)" by (cases indices)
  have "coo_matvec (length vals) Ai Aj vals x (replicate M 0)
      = Inr (dense_matvec (coo_dense (Ai, Aj) vals) (M, N) x)"
    by (rule coo_matvec_dense) (use assms ind in simp_all)
  then show ?thesis
    by (simp add: coo_spmm_def ind vector_def ndim_def dense_matvec_def)
qed

lemma length_column: "length (column X k) = hd (shape X)"
  by (simp add: column_def)

lemma coo_spmm_matrix:
  assumes "length (fst indices) = length vals" and "length (snd indices) = length vals"
    and "\<forall>r\<in>set (fst indices). r < M" and "\<forall>c\<in>set (snd indices). c < N"
    and "shape X = [N, K]"
  shows "coo_spmm indices (vector vals) (M, N) X
       = Inr (dense_matmat (coo_dense indices vals) (M, N) X)"
proof -
  obtain Ai Aj where ind: "indices = (Ai, Aj)" by (cases indices)
  let ?D = "coo_dense (Ai, Aj) vals"
  have col: "coo_matvec (length vals) Ai Aj vals (column X k) (replicate M 0)
      = Inr (dense_matvec ?D (M, N) (column X k))" for k
    by (rule coo_matvec_dense) (use assms ind in \<open>simp_all add: length_column\<close>)
  have cols: "mapM (\<lambda>k. coo_matvec (length vals) Ai Aj vals (column X k) (replicate M 0)) [0..<K]
      = Inr (map (\<lambda>k. dense_matvec ?D (M, N) (column X k)) [0..<K])"
    by (rule mapM_Inr) (rule col)
  have entry: "map (\<lambda>c. c ! i) (map (\<lambda>k. dense_matvec ?D (M, N) (column X k)) [0..<K])
      = map (\<lambda>k. \<Sum>j<N. ?D i j * data X ! (j * K + k)) [0..<K]" if "i \<in> set [0..<M]" for i
  proof -
    have "dense_matvec ?D (M, N) (column X k) ! i = (\<Sum>j<N. ?D i j * data X ! (j * K + k))" for k
    proof -
      have "dense_matvec ?D (M, N) (column X k) ! i = (\<Sum>j<N. ?D i j * column X k ! j)"
        using that by (simp add: dense_matvec_def)
      also have "\<dots> = (\<Sum>j<N. ?D i j * data X ! (j * K + k))"
        by (rule sum.cong) (simp_all add: column_def assms(5))
      finally show ?thesis .
    qed
    then show ?thesis by (simp add: comp_def)
  qed
  have rws: "map (\<lambda>i. map (\<lambda>c. c ! i) (map (\<lambda>k. dense_matvec ?D (M, N) (column X k)) [0..<K])) [0..<M]
      = map (\<lambda>i. map (\<lambda>k. \<Sum>j<N. ?D i j * data X ! (j * K + k)) [0..<K]) [0..<M]"
    by (rule map_cong[OF refl]) (rule entry)
  have "from_columns M (map (\<lambda>k. dense_matvec ?D (M, N) (column X k)) [0..<K])
      = dense_matmat ?D (M, N) X"
    unfolding from_columns_def dense_matmat_def assms(5) rws by simp
  then show ?thesis
    by (simp add: coo_spmm_def ind vector_def ndim_def assms(5) cols)
qed

lemma csr_matvec_dense:
  fixes crow col :: "nat list" and vals x :: "real list"
  assumes "length crow = Suc M" and "\<forall>q\<in>set crow. q \<le> length col"
    and "length col = length vals" and "\<forall>c\<in>set col. c < N" and "length x = N"
  shows "csr_matvec M N crow col vals x (replicate M 0)
       = Inr (dense_matvec (csr_dense crow col vals) (M, N) x)"
proof -
  have row: "(if Suc i < length crow \<and> i < length (replicate M (0::real))
              then csr_row_loop col vals x (replicate M 0 ! i) [crow ! i..<crow ! Suc i]
              else Inl OutOfBounds)
      = Inr (\<Sum>j<N. csr_dense crow col vals i j * x ! j)" if "i \<in> set [0..<M]" for i
  proof -
    from that have i: "i < M" by simp
    have up: "crow ! Suc i \<le> length col" using assms(1,2) i by simp
    have b: "jj < length col \<and> jj < length vals \<and> col ! jj < length x"
      if "jj \<in> set [crow ! i..<crow ! Suc i]" for jj
      using that up assms(3,4,5) by simp
    have "csr_row_loop col vals x 0 [crow ! i..<crow ! Suc i]
        = Inr (0 + (\<Sum>jj\<leftarrow>[crow ! i..<crow ! Suc i]. vals ! jj * x ! (col ! jj)))"
      by (rule csr_row_loop_sum) (rule b)
    also have "(\<Sum>jj\<leftarrow>[crow ! i..<crow ! Suc i]. vals ! jj * x ! (col ! jj))
        = (\<Sum>j<N. csr_dense crow col vals i j * x ! j)"
      unfolding csr_dense_def
      by (rule csr_row_dense[where g = "\<lambda>j. x ! j"]) (use b assms(5) in simp)
    finally show ?thesis using i assms(1) by simp
  qed
  show ?thesis
    unfolding csr_matvec_def dense_matvec_def fst_conv snd_conv
    by (rule mapM_Inr) (rule row)
qed

lemma csr_rows_loop_value:
  assumes "length y = n"
    and "\<And>jj. jj \<in> set jjs \<Longrightarrow> jj < length Aj \<and> jj < length Ax \<and> n * Aj ! jj + n \<le> length Xx"
  shows "csr_rows_loop n Aj Ax Xx y jjs
     = Inr (map (\<lambda>k. y ! k + (\<Sum>jj\<leftarrow>jjs. Ax ! jj * Xx ! (n * Aj ! jj + k))) [0..<n])"
  using assms
proof (induction jjs arbitrary: y)
  case Nil
  then show ?case by (simp add: map_nth[symmetric] del: map_nth) (metis map_nth)
next
  case (Cons jj jjs)
  let ?y = "map2 (\<lambda>yk xk. yk + Ax ! jj * xk) y (take n (drop (n * Aj ! jj) Xx))"
  have b: "jj < length Aj \<and> jj < length Ax \<and> n * Aj ! jj + n \<le> length Xx"
    using Cons.prems(2) by simp
  have fits: "n \<le> length Xx - n * Aj ! jj" using b by linarith
  have len: "length ?y = n" using Cons.prems(1) fits by simp
  have "csr_rows_loop n Aj Ax Xx ?y jjs
     = Inr (map (\<lambda>k. ?y ! k + (\<Sum>jj\<leftarrow>jjs. Ax ! jj * Xx ! (n * Aj ! jj + k))) [0..<n])"
    by (rule Cons.IH[OF len]) (use Cons.prems(2) in simp)
  also have "map (\<lambda>k. ?y ! k + (\<Sum>jj\<leftarrow>jjs. Ax ! jj * Xx ! (n * Aj ! jj + k))) [0..<n]
      = map (\<lambda>k. y ! k + (\<Sum>jj\<leftarrow>jj # jjs. Ax ! jj * Xx ! (n * Aj ! jj + k))) [0..<n]"
    by (rule map_cong[OF refl]) (use Cons.prems(1) fits in \<open>simp add: add.assoc\<close>)
  finally show ?case using b by simp
qed

lemma csr_matvecs_dense:
  fixes crow col :: "nat list" and vals X :: "real list"
  assumes "length crow = Suc M" and "\<forall>q\<in>set crow. q \<le> length col"
    and "length col = length vals" and "\<forall>c\<in>set col. c < N" and "length X = N * K"
  shows "csr_matvecs M N K crow col vals X (replicate (M * K) 0)
       = Inr (concat (map (\<lambda>i. map (\<lambda>k. \<Sum>j<N. csr_dense crow col vals i j * X ! (j * K + k))
                                 [0..<K]) [0..<M]))"
proof -
  let ?row = "\<lambda>i. map (\<lambda>k. \<Sum>j<N. csr_dense crow col vals i j * X ! (j * K + k)) [0..<K]"
  have row: "(if Suc i < length crow \<and> K * i + K \<le> length (replicate (M * K) (0::real))
              then csr_rows_loop K col vals X
                     (take K (drop (K * i) (replicate (M * K) 0))) [crow ! i..<crow ! Suc i]
              else Inl OutOfBounds)
      = Inr (?row i)" if "i \<in> set [0..<M]" for i
  proof -
    from that have i: "i < M" by simp
    then have "Suc i \<le> M" by simp
    then have "K * Suc i \<le> K * M" by (rule mult_le_mono2)
    then have fits: "K * i + K \<le> M * K" by (simp add: mult.commute)
    have y: "take K (drop (K * i) (replicate (M * K) (0::real))) = replicate K 0"
      using fits by (simp add: min_def)
    have up: "crow ! Suc i \<le> length col" using assms(1,2) i by simp
    have b: "jj < length col \<and> jj < length vals \<and> K * col ! jj + K \<le> length X"
      if "jj \<in> set [crow ! i..<crow ! Suc i]" for jj
    proof -
      from that up have jj: "jj < length col" by simp
      then have "Suc (col ! jj) \<le> N" using assms(4) by (simp add: Suc_le_eq)
      then have "K * Suc (col ! jj) \<le> K * N" by (rule mult_le_mono2)
      then show ?thesis using jj assms(3,5) by (simp add: mult.commute)
    qed
    have "csr_rows_loop K col vals X (replicate K 0) [crow ! i..<crow ! Suc i]
        = Inr (map (\<lambda>k. replicate K 0 ! k
                     + (\<Sum>jj\<leftarrow>[crow ! i..<crow ! Suc i]. vals ! jj * X ! (K * col ! jj + k)))
                 [0..<K])"
      by (rule csr_rows_loop_value) (simp, rule b)
    also have "map (\<lambda>k. replicate K 0 ! k
                     + (\<Sum>jj\<leftarrow>[crow ! i..<crow ! Suc i]. vals ! jj * X ! (K * col ! jj + k)))
                 [0..<K] = ?row i"
    proof (rule map_cong[OF refl])
      fix k assume "k \<in> set [0..<K]"
      then have k: "k < K" by simp
      have "(\<Sum>jj\<leftarrow>[crow ! i..<crow ! Suc i]. vals ! jj * X ! (K * col ! jj + k))
          = (\<Sum>jj\<leftarrow>[crow ! i..<crow ! Suc i]. vals ! jj * (\<lambda>j. X ! (j * K + k)) (col ! jj))"
        by (simp add: mult.commute)
      also have "\<dots> = (\<Sum>j<N. csr_dense crow col vals i j * X ! (j * K + k))"
        unfolding csr_dense_def
        by (rule csr_row_dense) (use b assms(4) in simp)
      finally show "replicate K 0 ! k
                     + (\<Sum>jj\<leftarrow>[crow ! i..<crow ! Suc i]. vals ! jj * X ! (K * col ! jj + k))
          = (\<Sum>j<N. csr_dense crow col vals i j * X ! (j * K + k))"
        using k by simp
    qed
    finally show ?thesis using i assms(1) fits by (simp add: y)
  qed
  have "mapM (\<lambda>i. if Suc i < length crow \<and> K * i + K \<le> length (replicate (M * K) (0::real))
              then csr_rows_loop K col vals X
                     (take K (drop (K * i) (replicate (M * K) 0))) [crow ! i..<crow ! Suc i]
              else Inl OutOfBounds) [0..<M] = Inr (map ?row [0..<M])"
    by (rule mapM_Inr) (rule row)
  then show ?thesis
    unfolding csr_matvecs_def by (simp add: mult.commute)
qed

lemma csr_spmm_vector:
  assumes "length crow = Suc M" and "\<forall>q\<in>set crow. q \<le> length col"
    and "length col = length vals" and "\<forall>c\<in>set col. c < N" and "length x = N"
  shows "csr_spmm crow col (vector vals) (M, N) (vector x)
       = Inr (vector (dense_matvec (csr_dense crow col vals) (M, N) x))"
  using csr_matvec_dense[OF assms]
  by (simp add: csr_spmm_def vector_def ndim_def dense_matvec_def)

lemma csr_spmm_matrix:
  assumes "length crow = Suc M" and "\<forall>q\<in>set crow. q \<le> length col"
    and "length col = length vals" and "\<forall>c\<in>set col. c < N"
    and "shape X = [N, K]" and "length (data X) = N * K"
  shows "csr_spmm crow col (vector vals) (M, N) X
       = Inr (dense_matmat (csr_dense crow col vals) (M, N) X)"
  using csr_matvecs_dense[OF assms(1-4,6)]
  by (simp add: csr_spmm_def vector_def ndim_def dense_matmat_def assms(5))

text \<open>
  Claim C5, as amended. With a one-dimensional \<open>values\<close> array and the indices of the
  sparse matrix inside its shape, \<open>coo_spmm\<close> and \<open>csr_spmm\<close> accept a dense operand of rank
  1 and return the product of the matrix with that vector, and accept a dense operand of
  rank 2 and return the product with that matrix: column \<open>k\<close> of the result is the product
  with column \<open>k\<close> of the operand. With a one-dimensional \<open>values\<close> array they reject every
  other rank of the operand, so every rank of 3 or more (and rank 0), with the ValueError
  \<^verbatim>\<open>`other` must be a 1-D or 2-D array.\<close> The NotImplementedError about batched products
  is raised when \<open>values\<close> has rank 2 or more, whatever the rank of the dense operand; for
  a zero-dimensional \<open>values\<close>, \<open>csr_spmm\<close> raises it too, and \<open>coo_spmm\<close> fails earlier, with
  the IndexError of \<^verbatim>\<open>values.shape[-1]\<close>.
\<close>

theorem spmm_rank_dispatch:
  "(length (fst indices) = length vals \<and> length (snd indices) = length vals
      \<and> (\<forall>r\<in>set (fst indices). r < M) \<and> (\<forall>c\<in>set (snd indices). c < N) \<longrightarrow>
      (length x = N \<longrightarrow>
         coo_spmm indices (vector vals) (M, N) (vector x)
           = Inr (vector (dense_matvec (coo_dense indices vals) (M, N) x)))
      \<and> (shape X = [N, K] \<and> length (data X) = N * K \<longrightarrow>
         coo_spmm indices (vector vals) (M, N) X
           = Inr (dense_matmat (coo_dense indices vals) (M, N) X)))
   \<and> (length crow = Suc M \<and> (\<forall>q\<in>set crow. q \<le> length col) \<and> length col = length vals
      \<and> (\<forall>c\<in>set col. c < N) \<longrightarrow>
      (length x = N \<longrightarrow>
         csr_spmm crow col (vector vals) (M, N) (vector x)
           = Inr (vector (dense_matvec (csr_dense crow col vals) (M, N) x)))
      \<and> (shape X = [N, K] \<and> length (data X) = N * K \<longrightarrow>
         csr_spmm crow col (vector vals) (M, N) X
           = Inr (dense_matmat (csr_dense crow col vals) (M, N) X)))
   \<and> (ndim values = 1 \<and> ndim other \<noteq> 1 \<and> ndim other \<noteq> 2 \<longrightarrow>
      coo_spmm indices values shp other = Inl (ValueError ''`other` must be a 1-D or 2-D array.'')
      \<and> csr_spmm crow col values shp other
          = Inl (ValueError ''`other` must be a 1-D or 2-D array.''))
   \<and> (ndim values \<noteq> 1 \<longrightarrow>
      coo_spmm indices values shp other
        = Inl (if ndim values = 0 then IndexError
               else NotImplementedError
                      ''Batch sparse matrix multiplication has not been supported yet.'')
      \<and> csr_spmm crow col values shp other
          = Inl (NotImplementedError
                   ''Batch sparse matrix multiplication has not been supported yet.''))"
proof (intro conjI impI)
  assume a: "length (fst indices) = length vals \<and> length (snd indices) = length vals
      \<and> (\<forall>r\<in>set (fst indices). r < M) \<and> (\<forall>c\<in>set (snd indices). c < N)"
  {
    assume "length x = N"
    with a show "coo_spmm indices (vector vals) (M, N) (vector x)
           = Inr (vector (dense_matvec (coo_dense indices vals) (M, N) x))"
      by (intro coo_spmm_vector) simp_all
  }
  {
    assume "shape X = [N, K] \<and> length (data X) = N * K"
    with a show "coo_spmm indices (vector vals) (M, N) X
           = Inr (dense_matmat (coo_dense indices vals) (M, N) X)"
      by (intro coo_spmm_matrix[where K = K]) simp_all
  }
next
  assume a: "length crow = Suc M \<and> (\<forall>q\<in>set crow. q \<le> length col) \<and> length col = length vals
      \<and> (\<forall>c\<in>set col. c < N)"
  then have a1: "length crow = Suc M" and a2: "\<forall>q\<in>set crow. q \<le> length col"
    and a3: "length col = length vals" and a4: "\<forall>c\<in>set col. c < N"
    by blast+
  {
    assume "length x = N"
    then show "csr_spmm crow col (vector vals) (M, N) (vector x)
           = Inr (vector (dense_matvec (csr_dense crow col vals) (M, N) x))"
      by (rule csr_spmm_vector[OF a1 a2 a3 a4])
  }
  {
    assume "shape X = [N, K] \<and> length (data X) = N * K"
    then have "shape X = [N, K]" and "length (data X) = N * K" by blast+
    then show "csr_spmm crow col (vector vals) (M, N) X
           = Inr (dense_matmat (csr_dense crow col vals) (M, N) X)"
      by (rule csr_spmm_matrix[OF a1 a2 a3 a4])
  }
next
  assume a: "ndim values = 1 \<and> ndim other \<noteq> 1 \<and> ndim other \<noteq> 2"
  then have "shape values \<noteq> []" by (auto simp: ndim_def)
  then show "coo_spmm indices values shp other
      = Inl (ValueError ''`other` must be a 1-D or 2-D array.'')"
    using a by (simp add: coo_spmm_def Let_def)
  show "csr_spmm crow col values shp other
      = Inl (ValueError ''`other` must be a 1-D or 2-D array.'')"
    using a by (simp add: csr_spmm_def Let_def)
next
  assume a: "ndim values \<noteq> 1"
  then show "coo_spmm indices values shp other
        = Inl (if ndim values = 0 then IndexError
               else NotImplementedError
                      ''Batch sparse matrix multiplication has not been supported yet.'')"
    by (simp add: coo_spmm_def Let_def ndim_def)
  show "csr_spmm crow col values shp other
          = Inl (NotImplementedError
                   ''Batch sparse matrix multiplication has not been supported yet.'')"
    using a by (simp add: csr_spmm_def Let_def)
qed

theorem spmm_rank_dispatch_witness:
  "coo_spmm ([2, 0, 2, 0], [0, 3, 0, 0]) (vector [1, 2, 3, 4]) (3, 4) (vector [10, 0, 0, 100])
     = Inr (vector [240, 0, 40])
   \<and> coo_spmm ([2, 0, 2, 0], [0, 3, 0, 0]) (vector [1, 2, 3, 4]) (3, 4)
       \<lparr>shape = [4, 2], data = [10, 1, 0, 0, 0, 0, 100, 5]\<rparr>
     = Inr \<lparr>shape = [3, 2], data = [240, 14, 0, 0, 40, 4]\<rparr>
   \<and> csr_spmm [0, 2, 2, 4] [3, 0, 0, 0] (vector [2, 4, 1, 3]) (3, 4) (vector [10, 0, 0, 100])
     = Inr (vector [240, 0, 40])
   \<and> csr_spmm [0, 2, 2, 4] [3, 0, 0, 0] (vector [2, 4, 1, 3]) (3, 4)
       \<lparr>shape = [4, 2], data = [10, 1, 0, 0, 0, 0, 100, 5]\<rparr>
     = Inr \<lparr>shape = [3, 2], data = [240, 14, 0, 0, 40, 4]\<rparr>
   \<and> coo_spmm ([2, 0, 2, 0], [0, 3, 0, 0]) (vector [1, 2, 3, 4]) (3, 4)
       \<lparr>shape = [4, 2, 1], data = [10, 1, 0, 0, 0, 0, 100, 5]\<rparr>
     = Inl (ValueError ''`other` must be a 1-D or 2-D array.'')
   \<and> csr_spmm [0, 2, 2, 4] [3, 0, 0, 0] (vector [2, 4, 1, 3]) (3, 4)
       \<lparr>shape = [4, 2, 1], data = [10, 1, 0, 0, 0, 0, 100, 5]\<rparr>
     = Inl (ValueError ''`other` must be a 1-D or 2-D array.'')
   \<and> coo_spmm ([2, 0, 2, 0], [0, 3, 0, 0]) \<lparr>shape = [2, 2], data = [1, 2, 3, 4]\<rparr> (3, 4)
       (vector [10, 0, 0, 100])
     = Inl (NotImplementedError ''Batch sparse matrix multiplication has not been supported yet.'')
   \<and> csr_spmm [0, 2, 2, 4] [3, 0, 0, 0] \<lparr>shape = [2, 2], data = [1, 2, 3, 4]\<rparr> (3, 4)
       (vector [10, 0, 0, 100])
     = Inl (NotImplementedError ''Batch sparse matrix multiplication has not been supported yet.'')
   \<and> coo_spmm ([2, 0, 2, 0], [0, 3, 0, 0]) \<lparr>shape = [], data = [7]\<rparr> (3, 4)
       (vector [10, 0, 0, 100])
     = Inl IndexError"
proof -
  let ?X = "\<lparr>shape = [4, 2], data = [10, 1, 0, 0, 0, 0, 100, 5]\<rparr>"
  let ?T = "\<lparr>shape = [4, 2, 1], data = [10, 1, 0, 0, 0, 0, 100, 5]\<rparr>"
  let ?B = "\<lparr>shape = [2, 2], data = [1, 2, 3, 4]\<rparr>"
  let ?S = "\<lparr>shape = [], data = [7]\<rparr>"
  have v: "dense_matvec (coo_dense ([2, 0, 2, 0], [0, 3, 0, 0]) [1, 2, 3, 4]) (3, 4)
             [10, 0, 0, 100] = [240, 0, 40]"
    "dense_matvec (csr_dense [0, 2, 2, 4] [3, 0, 0, 0] [2, 4, 1, 3]) (3, 4)
             [10, 0, 0, 100] = [240, 0, 40]"
    by code_simp+
  have m: "dense_matmat (coo_dense ([2, 0, 2, 0], [0, 3, 0, 0]) [1, 2, 3, 4]) (3, 4) ?X
             = \<lparr>shape = [3, 2], data = [240, 14, 0, 0, 40, 4]\<rparr>"
    "dense_matmat (csr_dense [0, 2, 2, 4] [3, 0, 0, 0] [2, 4, 1, 3]) (3, 4) ?X
             = \<lparr>shape = [3, 2], data = [240, 14, 0, 0, 40, 4]\<rparr>"
    by code_simp+
  note t = spmm_rank_dispatch[of "([2, 0, 2, 0], [0, 3, 0, 0])" _ 3 4 "[10, 0, 0, 100]" ?X 2
      "[0, 2, 2, 4]" "[3, 0, 0, 0]"]
  from t[of "[1, 2, 3, 4]" "vector [1, 2, 3, 4]" ?T "(3, 4)"]
  have coo: "coo_spmm ([2, 0, 2, 0], [0, 3, 0, 0]) (vector [1, 2, 3, 4]) (3, 4) (vector [10, 0, 0, 100])
       = Inr (vector [240, 0, 40])"
    "coo_spmm ([2, 0, 2, 0], [0, 3, 0, 0]) (vector [1, 2, 3, 4]) (3, 4) ?X
       = Inr \<lparr>shape = [3, 2], data = [240, 14, 0, 0, 40, 4]\<rparr>"
    "coo_spmm ([2, 0, 2, 0], [0, 3, 0, 0]) (vector [1, 2, 3, 4]) (3, 4) ?T
       = Inl (ValueError ''`other` must be a 1-D or 2-D array.'')"
    unfolding v m by (simp_all add: ndim_def vector_def)
  from t[of "[2, 4, 1, 3]" "vector [2, 4, 1, 3]" ?T "(3, 4)"]
  have csr: "csr_spmm [0, 2, 2, 4] [3, 0, 0, 0] (vector [2, 4, 1, 3]) (3, 4) (vector [10, 0, 0, 100])
       = Inr (vector [240, 0, 40])"
    "csr_spmm [0, 2, 2, 4] [3, 0, 0, 0] (vector [2, 4, 1, 3]) (3, 4) ?X
       = Inr \<lparr>shape = [3, 2], data = [240, 14, 0, 0, 40, 4]\<rparr>"
    "csr_spmm [0, 2, 2, 4] [3, 0, 0, 0] (vector [2, 4, 1, 3]) (3, 4) ?T
       = Inl (ValueError ''`other` must be a 1-D or 2-D array.'')"
    unfolding v m by (simp_all add: ndim_def vector_def)
  from t[of "[1, 2, 3, 4]" ?B "vector [10, 0, 0, 100]" "(3, 4)"]
  have batch: "coo_spmm ([2, 0, 2, 0], [0, 3, 0, 0]) ?B (3, 4) (vector [10, 0, 0, 100])
       = Inl (NotImplementedError ''Batch sparse matrix multiplication has not been supported yet.'')"
    "csr_spmm [0, 2, 2, 4] [3, 0, 0, 0] ?B (3, 4) (vector [10, 0, 0, 100])
       = Inl (NotImplementedError ''Batch sparse matrix multiplication has not been supported yet.'')"
    by (simp_all add: ndim_def)
  from t[of "[1, 2, 3, 4]" ?S "vector [10, 0, 0, 100]" "(3, 4)"]
  have scalar: "coo_spmm ([2, 0, 2, 0], [0, 3, 0, 0]) ?S (3, 4) (vector [10, 0, 0, 100])
       = Inl IndexError"
    by (simp add: ndim_def)
  show ?thesis
    using coo csr batch scalar by (intro conjI)
qed

text \<open>
  The claim as stated names the batched-product signal for a dense operand of rank 3.
  The signal raised there is the ValueError.
\<close>

theorem spmm_rank_three_signal:
  "csr_spmm [0, 1] [0] (vector [2]) (1, 1) \<lparr>shape = [1, 1, 1], data = [5]\<rparr>
     = Inl (ValueError ''`other` must be a 1-D or 2-D array.'')
   \<and> csr_spmm [0, 1] [0] (vector [2]) (1, 1) \<lparr>shape = [1, 1, 1], data = [5]\<rparr>
     \<noteq> Inl (NotImplementedError ''Batch sparse matrix multiplication has not been supported yet.'')
   \<and> coo_spmm ([0], [0]) (vector [2]) (1, 1) \<lparr>shape = [1, 1, 1], data = [5]\<rparr>
     = Inl (ValueError ''`other` must be a 1-D or 2-D array.'')
   \<and> coo_spmm ([0], [0]) (vector [2]) (1, 1) \<lparr>shape = [1, 1, 1], data = [5]\<rparr>
     \<noteq> Inl (NotImplementedError ''Batch sparse matrix multiplication has not been supported yet.'')"
  by (simp add: csr_spmm_def coo_spmm_def ndim_def vector_def)

section \<open>The measure of a simplex\<close>

lemma take_points_in_range:
  "\<forall>i\<in>set cell. 0 \<le> i \<and> i < int (length (rows node)) \<Longrightarrow>
   take_points node cell = Inr (map (\<lambda>i. rows node ! nat i) cell)"
  unfolding take_points_def by (rule mapM_Inr) (simp add: np_index_def)

lemma exact_det_1: "exact_det [[a]] = a"
  by (simp add: minor_rows_def)

lemma exact_det_2: "exact_det [[a, b], [c, d]] = a * d - b * c"
  by (simp add: minor_rows_def upt_rec numeral_2_eq_2)

lemma exact_det_3:
  "exact_det [[a, b, c], [d, e, f], [g, h, i]]
     = a * (e * i - f * h) - b * (d * i - f * g) + c * (d * h - e * g)"
  by (simp add: minor_rows_def upt_rec numeral_2_eq_2 numeral_3_eq_3 algebra_simps)

lemma simplex_measure_value:
  assumes "cols entity = Suc (cols node)"
    and "\<forall>cell\<in>set (rows entity). \<forall>i\<in>set cell. 0 \<le> i \<and> i < int (length (rows node))"
  shows "simplex_measure det entity node
      = Inr (map (\<lambda>cell. det (consecutive_edges (map (\<lambda>i. rows node ! nat i) cell))
                         / fact (cols node)) (rows entity))"
proof -
  have "mapM (take_points node) (rows entity)
      = Inr (map (\<lambda>cell. map (\<lambda>i. rows node ! nat i) cell) (rows entity))"
    by (rule mapM_Inr) (use assms(2) in \<open>simp add: take_points_in_range\<close>)
  then show ?thesis
    using assms(1) by (simp add: simplex_measure_def Let_def comp_def)
qed

lemma simplex_measure_interval:
  "simplex_measure exact_det \<lparr>cols = 2, rows = [[0, 1]]\<rparr> \<lparr>cols = 1, rows = [[a], [b]]\<rparr>
     = Inr [b - a]"
  by (simp add: simplex_measure_def take_points_def np_index_def consecutive_edges_def
      exact_det_1 del: exact_det.simps)

lemma simplex_measure_triangle:
  "simplex_measure exact_det \<lparr>cols = 3, rows = [[0, 1, 2]]\<rparr>
       \<lparr>cols = 2, rows = [[x0, y0], [x1, y1], [x2, y2]]\<rparr>
     = Inr [((x1 - x0) * (y2 - y1) - (y1 - y0) * (x2 - x1)) / 2]"
  by (simp add: simplex_measure_def take_points_def np_index_def consecutive_edges_def
      exact_det_2 del: exact_det.simps)

lemma simplex_measure_tetrahedron:
  "simplex_measure exact_det \<lparr>cols = 4, rows = [[0, 1, 2, 3]]\<rparr>
       \<lparr>cols = 3, rows = [[x0, y0, z0], [x1, y1, z1], [x2, y2, z2], [x3, y3, z3]]\<rparr>
     = Inr [((x1 - x0) * ((y2 - y1) * (z3 - z2) - (z2 - z1) * (y3 - y2))
             - (y1 - y0) * ((x2 - x1) * (z3 - z2) - (z2 - z1) * (x3 - x2))
             + (z1 - z0) * ((x2 - x1) * (y3 - y2) - (y2 - y1) * (x3 - x2))) / 6]"
  by (simp add: simplex_measure_def take_points_def np_index_def consecutive_edges_def
      exact_det_3 fact_numeral del: exact_det.simps)

text \<open>
  Claim C6. Where every vertex index is in range and an entity has one vertex more than
  the points have coordinates, \<open>simplex_measure\<close> returns, for each entity, the determinant
  of its consecutive edge vectors, as \<^verbatim>\<open>numpy.linalg.det\<close> returns it, divided by the
  factorial of the topological dimension. With the exact determinant this is the signed
  length of an interval, the signed area of a triangle and the signed volume of a
  tetrahedron, written out in the coordinates of the vertices. On the unit right triangle
  the result is \<open>1/2\<close> and on the unit tetrahedron \<open>1/6\<close>: for the exact determinant, and for
  every routine that returns 1 on the edge matrix of either simplex.
\<close>

theorem simplex_measure_formula:
  "(cols entity = Suc (cols node)
      \<and> (\<forall>cell\<in>set (rows entity). \<forall>i\<in>set cell. 0 \<le> i \<and> i < int (length (rows node))) \<longrightarrow>
    simplex_measure det entity node
      = Inr (map (\<lambda>cell. det (consecutive_edges (map (\<lambda>i. rows node ! nat i) cell))
                         / fact (cols node)) (rows entity)))
   \<and> simplex_measure exact_det \<lparr>cols = 2, rows = [[0, 1]]\<rparr> \<lparr>cols = 1, rows = [[a], [b]]\<rparr>
       = Inr [b - a]
   \<and> simplex_measure exact_det \<lparr>cols = 3, rows = [[0, 1, 2]]\<rparr>
         \<lparr>cols = 2, rows = [[x0, y0], [x1, y1], [x2, y2]]\<rparr>
       = Inr [((x1 - x0) * (y2 - y1) - (y1 - y0) * (x2 - x1)) / 2]
   \<and> simplex_measure exact_det \<lparr>cols = 4, rows = [[0, 1, 2, 3]]\<rparr>
         \<lparr>cols = 3, rows = [[u0, v0, w0], [u1, v1, w1], [u2, v2, w2], [u3, v3, w3]]\<rparr>
       = Inr [((u1 - u0) * ((v2 - v1) * (w3 - w2) - (w2 - w1) * (v3 - v2))
               - (v1 - v0) * ((u2 - u1) * (w3 - w2) - (w2 - w1) * (u3 - u2))
               + (w1 - w0) * ((u2 - u1) * (v3 - v2) - (v2 - v1) * (u3 - u2))) / 6]
   \<and> simplex_measure exact_det \<lparr>cols = 3, rows = [[0, 1, 2]]\<rparr>
         \<lparr>cols = 2, rows = [[0, 0], [1, 0], [0, 1]]\<rparr> = Inr [1 / 2]
   \<and> simplex_measure exact_det \<lparr>cols = 4, rows = [[0, 1, 2, 3]]\<rparr>
         \<lparr>cols = 3, rows = [[0, 0, 0], [1, 0, 0], [0, 1, 0], [0, 0, 1]]\<rparr> = Inr [1 / 6]
   \<and> (det [[1, 0], [- 1, 1]] = 1 \<longrightarrow>
        simplex_measure det \<lparr>cols = 3, rows = [[0, 1, 2]]\<rparr>
          \<lparr>cols = 2, rows = [[0, 0], [1, 0], [0, 1]]\<rparr> = Inr [1 / 2])
   \<and> (det [[1, 0, 0], [- 1, 1, 0], [0, - 1, 1]] = 1 \<longrightarrow>
        simplex_measure det \<lparr>cols = 4, rows = [[0, 1, 2, 3]]\<rparr>
          \<lparr>cols = 3, rows = [[0, 0, 0], [1, 0, 0], [0, 1, 0], [0, 0, 1]]\<rparr> = Inr [1 / 6])"
proof (intro conjI impI)
  assume "det [[1, 0], [- 1, 1]] = 1"
  then show "simplex_measure det \<lparr>cols = 3, rows = [[0, 1, 2]]\<rparr>
          \<lparr>cols = 2, rows = [[0, 0], [1, 0], [0, 1]]\<rparr> = Inr [1 / 2]"
    by (simp add: simplex_measure_def take_points_def np_index_def consecutive_edges_def)
next
  assume "det [[1, 0, 0], [- 1, 1, 0], [0, - 1, 1]] = 1"
  then show "simplex_measure det \<lparr>cols = 4, rows = [[0, 1, 2, 3]]\<rparr>
          \<lparr>cols = 3, rows = [[0, 0, 0], [1, 0, 0], [0, 1, 0], [0, 0, 1]]\<rparr> = Inr [1 / 6]"
    by (simp add: simplex_measure_def take_points_def np_index_def consecutive_edges_def
        fact_numeral)
next
  assume "cols entity = Suc (cols node)
      \<and> (\<forall>cell\<in>set (rows entity). \<forall>i\<in>set cell. 0 \<le> i \<and> i < int (length (rows node)))"
  then show "simplex_measure det entity node
      = Inr (map (\<lambda>cell. det (consecutive_edges (map (\<lambda>i. rows node ! nat i) cell))
                         / fact (cols node)) (rows entity))"
    by (intro simplex_measure_value) simp_all
next
  show "simplex_measure exact_det \<lparr>cols = 3, rows = [[0, 1, 2]]\<rparr>
         \<lparr>cols = 2, rows = [[0, 0], [1, 0], [0, 1]]\<rparr> = Inr [1 / 2]"
    by (simp add: simplex_measure_triangle)
next
  show "simplex_measure exact_det \<lparr>cols = 4, rows = [[0, 1, 2, 3]]\<rparr>
         \<lparr>cols = 3, rows = [[0, 0, 0], [1, 0, 0], [0, 1, 0], [0, 0, 1]]\<rparr> = Inr [1 / 6]"
    by (simp add: simplex_measure_tetrahedron)
qed (rule simplex_measure_interval simplex_measure_triangle simplex_measure_tetrahedron)+

theorem simplex_measure_formula_witness:
  "simplex_measure exact_det \<lparr>cols = 3, rows = [[3, 0, 2], [3, 2, 0]]\<rparr>
       \<lparr>cols = 2, rows = [[3, 5], [7, 7], [2, 6], [2, 5]]\<rparr>
     = Inr [exact_det [[1, 0], [- 1, 1]] / fact 2, exact_det [[0, 1], [1, - 1]] / fact 2]
   \<and> exact_det [[1, 0], [- 1, 1]] / fact 2 = 1 / 2
   \<and> exact_det [[0, 1], [1, - 1]] / fact 2 = - (1 / 2)"
proof -
  have "exact_det [[1, 0], [- 1, 1]] / fact 2 = 1 / 2"
    "exact_det [[0, 1], [1, - 1]] / fact 2 = - (1 / 2)"
    by (simp_all add: exact_det_2 del: exact_det.simps)
  then show ?thesis
    using simplex_measure_formula[of "\<lparr>cols = 3, rows = [[3, 0, 2], [3, 2, 0]]\<rparr>"
        "\<lparr>cols = 2, rows = [[3, 5], [7, 7], [2, 6], [2, 5]]\<rparr>" exact_det]
    by (simp add: consecutive_edges_def)
qed

section \<open>Device arguments and the axes of vmap\<close>

lemma creation_before_numpy_2:
  assumes "np_version < ''2.0.0''"
  shows "zeros np_version f args (kwargs(''device'' \<mapsto> d)) = f args (kwargs(''device'' := None))"
    and "ones np_version f args (kwargs(''device'' \<mapsto> d)) = f args (kwargs(''device'' := None))"
    and "full np_version f args (kwargs(''device'' \<mapsto> d)) = f args (kwargs(''device'' := None))"
    and "arange np_version f args (kwargs(''device'' \<mapsto> d)) = f args (kwargs(''device'' := None))"
    and "linspace np_version f args (kwargs(''device'' \<mapsto> d)) = f args (kwargs(''device'' := None))"
    and "eye np_version f args (kwargs(''device'' \<mapsto> d)) = f args (kwargs(''device'' := None))"
  using assms
  by (simp_all add: zeros_def ones_def full_def arange_def linspace_def eye_def remove_device_def)

lemma creation_from_numpy_2:
  assumes "\<not> np_version < ''2.0.0''"
  shows "zeros np_version f = f" and "ones np_version f = f" and "full np_version f = f"
    and "arange np_version f = f" and "linspace np_version f = f" and "eye np_version f = f"
  using assms
  by (simp_all add: zeros_def ones_def full_def arange_def linspace_def eye_def attach_method_def)

lemma zeros_from_numpy_2:
  assumes "\<not> np_version < ''2.0.0''"
    and "dom kwargs \<subseteq> {''dtype'', ''order'', ''like''}"
  shows "zeros np_version numpy_2_zeros shp kwargs
           = Inr \<lparr>shape = shp, data = replicate (prod_list shp) 0\<rparr>"
    and "zeros np_version numpy_2_zeros shp (kwargs(''device'' \<mapsto> PyNone))
           = Inr \<lparr>shape = shp, data = replicate (prod_list shp) 0\<rparr>"
    and "zeros np_version numpy_2_zeros shp (kwargs(''device'' \<mapsto> PyStr ''cpu''))
           = Inr \<lparr>shape = shp, data = replicate (prod_list shp) 0\<rparr>"
    and "d \<noteq> PyNone \<Longrightarrow> d \<noteq> PyStr ''cpu'' \<Longrightarrow>
         \<exists>msg. zeros np_version numpy_2_zeros shp (kwargs(''device'' \<mapsto> d)) = Inl (ValueError msg)"
proof -
  have nd: "kwargs ''device'' = None" using assms(2) by (auto simp: dom_def)
  have sub: "dom kwargs \<subseteq> {''dtype'', ''order'', ''device'', ''like''}"
    using assms(2) by auto
  show "zeros np_version numpy_2_zeros shp kwargs
           = Inr \<lparr>shape = shp, data = replicate (prod_list shp) 0\<rparr>"
    using assms(1) sub nd by (simp add: zeros_def attach_method_def numpy_2_zeros_def)
  show "zeros np_version numpy_2_zeros shp (kwargs(''device'' \<mapsto> PyNone))
           = Inr \<lparr>shape = shp, data = replicate (prod_list shp) 0\<rparr>"
    using assms(1) sub by (simp add: zeros_def attach_method_def numpy_2_zeros_def)
  show "zeros np_version numpy_2_zeros shp (kwargs(''device'' \<mapsto> PyStr ''cpu''))
           = Inr \<lparr>shape = shp, data = replicate (prod_list shp) 0\<rparr>"
    using assms(1) sub by (simp add: zeros_def attach_method_def numpy_2_zeros_def)
  show "\<exists>msg. zeros np_version numpy_2_zeros shp (kwargs(''device'' \<mapsto> d)) = Inl (ValueError msg)"
    if "d \<noteq> PyNone" "d \<noteq> PyStr ''cpu''"
    using assms(1) sub that by (simp add: zeros_def attach_method_def numpy_2_zeros_def)
qed

text \<open>
  Claim C7. The claim is that a creation function lets \<open>device=None\<close> and \<open>"cpu"\<close> pass and
  fails for any other device. Under a NumPy whose version string is below \<open>2.0.0\<close> the
  creation functions are the wrapped ones, and the wrapper drops the keyword without
  looking at it (\<open>creation_before_numpy_2\<close>): the theorem evaluates \<open>zeros\<close> with
  \<open>device = "cuda"\<close> under NumPy 1.26.4, where it returns an array. The same call under
  NumPy 2.0.0, where the name is NumPy's own function, fails with a ValueError, as every
  device other than \<open>None\<close> and \<open>"cpu"\<close> does there (\<open>zeros_from_numpy_2\<close>); and
  \<open>device_put\<close> rejects the same device with a NotImplementedError under either version.
\<close>

theorem zeros_device_unchecked_before_numpy_2:
  "zeros ''1.26.4'' numpy_1_zeros [2] [''device'' \<mapsto> PyStr ''cuda'']
     = Inr \<lparr>shape = [2], data = [0, 0]\<rparr>
   \<and> zeros ''2.0.0'' numpy_2_zeros [2] [''device'' \<mapsto> PyStr ''cuda'']
     = Inl (ValueError (''Device not understood. Only '' @ [CHR 0x22] @ ''cpu''
              @ [CHR 0x22] @ '' is allowed, but received: cuda''))
   \<and> device_put \<lparr>shape = [2], data = [0, 0]\<rparr> (PyStr ''cuda'')
     = Inl (NotImplementedError ''only cpu device is supported by NumPyBackend '')"
  by (simp add: zeros_def remove_device_def attach_method_def numpy_1_zeros_def numpy_2_zeros_def
      device_put_def py_str_def numeral_2_eq_2)

text \<open>
  Claim C9, as amended. For every function and every pair of axes with
  \<open>in_axes \<noteq> out_axes\<close>, \<open>vmap\<close> raises a ValueError at once, before any closure is built,
  with the fixed message \<^verbatim>\<open>Only support in_axes == out_axes with numpy backend\<close>; with
  equal axes it returns the vectorizing closure.
\<close>

theorem vmap_axes_guard:
  "(in_axes \<noteq> out_axes \<longrightarrow>
      vmap np func in_axes out_axes
        = Inl (ValueError ''Only support in_axes == out_axes with numpy backend''))
   \<and> (in_axes = out_axes \<longrightarrow> vmap np func in_axes out_axes = Inr (vectorized np func in_axes))"
  by (simp add: vmap_def)

theorem vmap_axes_guard_witness:
  "vmap rows_numpy (ReturnsArray (\<lambda>xs kw. Inr (map (map (\<lambda>v. 2 * v)) (hd xs)))) 0 1
      = Inl (ValueError ''Only support in_axes == out_axes with numpy backend'')
   \<and> (case vmap rows_numpy (ReturnsArray (\<lambda>xs kw. Inr (map (map (\<lambda>v. 2 * v)) (hd xs)))) 0 0 of
         Inl e \<Rightarrow> Inl e
       | Inr g \<Rightarrow> g [NdArray [[1, 2, 3], [4, 5, 6], [7, 8, 9], [10, 11, 12]]] Map.empty)
      = Inr (Array [[2, 4, 6], [8, 10, 12], [14, 16, 18], [20, 22, 24]])"
proof -
  have "vectorized rows_numpy (ReturnsArray (\<lambda>xs kw. Inr (map (map (\<lambda>v. 2 * v)) (hd xs)))) 0
          [NdArray [[1, 2, 3], [4, 5, 6], [7, 8, 9], [10, 11, 12]]] Map.empty
      = Inr (Array [[2, 4, 6], [8, 10, 12], [14, 16, 18], [20, 22, 24]])"
    by (simp add: vectorized_def rows_numpy_def arrays_of_def zip_star_def upt_rec numeral_eq_Suc)
  then show ?thesis
    using vmap_axes_guard[of 0 1 rows_numpy "ReturnsArray (\<lambda>xs kw. Inr (map (map (\<lambda>v. 2 * v)) (hd xs)))"]
      vmap_axes_guard[of 0 0 rows_numpy "ReturnsArray (\<lambda>xs kw. Inr (map (map (\<lambda>v. 2 * v)) (hd xs)))"]
    by simp
qed

text \<open>
  The claim as stated says the error names the offending values. The message is the same
  for the axes \<open>(0, 1)\<close> and \<open>(2, 3)\<close>: it names neither.
\<close>

theorem vmap_error_names_no_values:
  "vmap rows_numpy (ReturnsArray (\<lambda>xs kw. Inr (hd xs))) 0 1
     = Inl (ValueError ''Only support in_axes == out_axes with numpy backend'')
   \<and> vmap rows_numpy (ReturnsArray (\<lambda>xs kw. Inr (hd xs))) 2 3
     = Inl (ValueError ''Only support in_axes == out_axes with numpy backend'')"
  by (simp add: vmap_def)

section \<open>Barycentric gradients of a degenerate triangle\<close>





lemma triangle_grad_lambda_2d_rounding_residue:
  assumes "det [[3, 3], [- 5, - 5]] = r" and "r \<noteq> 0"
  shows "triangle_grad_lambda_2d det \<lparr>cols = 3, rows = [[0, 1, 2]]\<rparr>
           \<lparr>cols = 2, rows = [[0, 0], [2, 2], [5, 5]]\<rparr>
         = Inr ([], [[[Finite (- 3 / r), Finite (3 / r)], [Finite (5 / r), Finite (- 5 / r)],
                      [Finite (- 2 / r), Finite (2 / r)]]])"
    and "exact_det [[3, 3], [- 5, - 5]] = 0"
proof -
  show "triangle_grad_lambda_2d det \<lparr>cols = 3, rows = [[0, 1, 2]]\<rparr>
           \<lparr>cols = 2, rows = [[0, 0], [2, 2], [5, 5]]\<rparr>
         = Inr ([], [[[Finite (- 3 / r), Finite (3 / r)], [Finite (5 / r), Finite (- 5 / r)],
                      [Finite (- 2 / r), Finite (2 / r)]]])"
    using assms
    by (simp add: triangle_grad_lambda_2d_def take_points_def np_index_def tri_block_def
        tri_nv_def tri_edges_def fp_divide_def divide_warnings_def)
  show "exact_det [[3, 3], [- 5, - 5]] = 0"
    by (simp add: exact_det_2 del: exact_det.simps)
qed




section \<open>The gradient kernel: partial derivatives and column sums\<close>

lemma DERIV_falling_product:
  "((\<lambda>x. \<Prod>j<n. x - real j) has_real_derivative falling_deriv n x) (at x)"
proof -
  have "((\<lambda>u. \<Prod>j\<in>{..<n}. u - real j) has_field_derivative
          (\<Sum>m\<in>{..<n}. 1 * (\<Prod>j\<in>{..<n} - {m}. x - real j))) (at x)"
    by (rule has_field_derivative_prod) (auto intro!: derivative_eq_intros)
  then show ?thesis by (simp add: falling_deriv_def)
qed

lemma DERIV_gbinomial:
  "((\<lambda>x. x gchoose k) has_real_derivative falling_deriv k x / fact k) (at x)"
proof -
  have "((\<lambda>x. (\<Prod>j<k. x - real j) / fact k) has_real_derivative falling_deriv k x / fact k) (at x)"
    by (rule DERIV_cdivide) (rule DERIV_falling_product)
  moreover have "(\<lambda>x::real. x gchoose k) = (\<lambda>x. (\<Prod>j<k. x - real j) / fact k)"
    by (rule ext) (simp add: gbinomial_prod_rev atLeast0LessThan)
  ultimately show ?thesis by simp
qed

lemma Vandermonde_derivative:
  "(\<Sum>k\<le>n. falling_deriv k x / fact k * (y gchoose (n - k))) = falling_deriv n (x + y) / fact n"
proof -
  have L: "((\<lambda>x. \<Sum>k\<le>n. (x gchoose k) * (y gchoose (n - k))) has_real_derivative
            (\<Sum>k\<le>n. falling_deriv k x / fact k * (y gchoose (n - k)))) (at x)"
    by (rule DERIV_sum) (rule DERIV_cmult_right, rule DERIV_gbinomial)
  have "((\<lambda>u. u gchoose n) has_real_derivative falling_deriv n (x + y) / fact n) (at (x + y))"
    by (rule DERIV_gbinomial)
  then have R: "((\<lambda>x. (x + y) gchoose n) has_real_derivative falling_deriv n (x + y) / fact n) (at x)"
    by (simp only: DERIV_shift)
  have "(\<lambda>x. \<Sum>k\<le>n. (x gchoose k) * (y gchoose (n - k))) = (\<lambda>x. (x + y) gchoose n)"
    by (rule ext) (rule gbinomial_Vandermonde_real)
  with L have "((\<lambda>x. (x + y) gchoose n) has_real_derivative
            (\<Sum>k\<le>n. falling_deriv k x / fact k * (y gchoose (n - k)))) (at x)"
    by simp
  then show ?thesis using R by (rule DERIV_unique)
qed

lemma falling_product_at_degree: "(\<Prod>j<n. real n - real j) = fact n"
proof -
  have "(\<Prod>j<n. real n - real j) = (\<Prod>j<n. real (n - j))"
    by (rule prod.cong) (simp_all add: of_nat_diff)
  also have "\<dots> = real (\<Prod>j = 0..<n. n - j)"
    by (simp only: of_nat_prod atLeast0LessThan)
  also have "\<dots> = fact n"
    by (simp only: fact_prod_rev[symmetric] of_nat_fact)
  finally show ?thesis .
qed

lemma falling_product_without:
  assumes "m < n"
  shows "(\<Prod>j\<in>{..<n} - {m}. real n - real j) = fact n / real (n - m)"
proof -
  let ?P = "\<Prod>j\<in>{..<n} - {m}. real n - real j"
  have "(\<Prod>j\<in>{..<n}. real n - real j) = (real n - real m) * ?P"
    by (rule prod.remove) (use assms in simp_all)
  then have eq: "fact n = real (n - m) * ?P"
    using assms by (simp only: falling_product_at_degree of_nat_diff[OF less_imp_le])
  have nz: "real (n - m) \<noteq> 0" using assms by simp
  have "?P = (real (n - m) * ?P) / real (n - m)"
    using nz by simp
  then show ?thesis by (simp only: eq[symmetric])
qed

lemma falling_deriv_at_degree:
  "falling_deriv n (real n) / fact n = (\<Sum>k = 1..n. 1 / real k)"
proof -
  have "falling_deriv n (real n) = (\<Sum>m<n. fact n / real (n - m))"
    unfolding falling_deriv_def
    by (rule sum.cong[OF refl]) (simp only: falling_product_without lessThan_iff)
  also have "\<dots> = (\<Sum>m<n. fact n * (1 / real (n - m)))"
    by (simp only: times_divide_eq_right mult_1_right)
  also have "\<dots> = fact n * (\<Sum>m<n. 1 / real (n - m))"
    by (simp only: sum_distrib_left)
  also have "(\<Sum>m<n. 1 / real (n - m)) = (\<Sum>m<n. 1 / real (Suc (n - Suc m)))"
    by (rule sum.cong[OF refl]) (simp add: Suc_diff_Suc)
  also have "\<dots> = (\<Sum>m<n. 1 / real (Suc m))"
    by (rule sum.nat_diff_reindex)
  also have "\<dots> = (\<Sum>k = Suc 0..n. 1 / real k)"
    by (rule sum.atLeast1_atMost_eq[symmetric])
  finally have "falling_deriv n (real n) = fact n * (\<Sum>k = Suc 0..n. 1 / real k)" .
  then show ?thesis by simp
qed

lemma sum_triangle_swap:
  fixes a :: "nat \<Rightarrow> nat \<Rightarrow> real"
  shows "(\<Sum>j\<le>n. \<Sum>k\<le>n - j. a j k) = (\<Sum>k\<le>n. \<Sum>j\<le>n - k. a j k)"
proof -
  have l: "(\<Sum>k\<le>n - j. a j k) = (\<Sum>k\<le>n. if j + k \<le> n then a j k else 0)" if "j \<le> n" for j
  proof -
    have "(\<Sum>k\<le>n. if j + k \<le> n then a j k else 0) = (\<Sum>k\<in>{..n} \<inter> {k. j + k \<le> n}. a j k)"
      by (simp add: sum.inter_restrict)
    moreover have "{..n} \<inter> {k. j + k \<le> n} = {..n - j}" using that by auto
    ultimately show ?thesis by simp
  qed
  have r: "(\<Sum>j\<le>n - k. a j k) = (\<Sum>j\<le>n. if j + k \<le> n then a j k else 0)" if "k \<le> n" for k
  proof -
    have "(\<Sum>j\<le>n. if j + k \<le> n then a j k else 0) = (\<Sum>j\<in>{..n} \<inter> {j. j + k \<le> n}. a j k)"
      by (simp add: sum.inter_restrict)
    moreover have "{..n} \<inter> {j. j + k \<le> n} = {..n - k}" using that by auto
    ultimately show ?thesis by simp
  qed
  have "(\<Sum>j\<le>n. \<Sum>k\<le>n - j. a j k) = (\<Sum>j\<le>n. \<Sum>k\<le>n. if j + k \<le> n then a j k else 0)"
    by (rule sum.cong) (simp_all add: l)
  also have "\<dots> = (\<Sum>k\<le>n. \<Sum>j\<le>n. if j + k \<le> n then a j k else 0)"
    by (rule sum.swap)
  also have "\<dots> = (\<Sum>k\<le>n. \<Sum>j\<le>n - k. a j k)"
    by (rule sum.cong) (simp_all add: r)
  finally show ?thesis .
qed

lemma convolution_one_factor:
  "convolution (map (\<lambda>x k. x gchoose k) xs @ g # map (\<lambda>x k. x gchoose k) ys) n
     = (\<Sum>k\<le>n. g k * ((sum_list xs + sum_list ys) gchoose (n - k)))"
proof (induction xs arbitrary: n)
  case Nil
  then show ?case by (simp add: convolution_gbinomial)
next
  case (Cons x xs)
  have "convolution (map (\<lambda>x k. x gchoose k) (x # xs) @ g # map (\<lambda>x k. x gchoose k) ys) n
      = (\<Sum>j\<le>n. \<Sum>k\<le>n - j. (x gchoose j) * (g k * ((sum_list xs + sum_list ys) gchoose (n - j - k))))"
    by (simp add: Cons.IH sum_distrib_left)
  also have "\<dots> = (\<Sum>k\<le>n. \<Sum>j\<le>n - k. (x gchoose j) * (g k * ((sum_list xs + sum_list ys) gchoose (n - j - k))))"
    by (rule sum_triangle_swap)
  also have "\<dots> = (\<Sum>k\<le>n. g k * (\<Sum>j\<le>n - k. (x gchoose j) * ((sum_list xs + sum_list ys) gchoose (n - k - j))))"
  proof (rule sum.cong[OF refl])
    fix k
    have "(x gchoose j) * (g k * ((sum_list xs + sum_list ys) gchoose (n - j - k)))
        = g k * ((x gchoose j) * ((sum_list xs + sum_list ys) gchoose (n - k - j)))" for j
      by (simp add: add.commute)
    then show "(\<Sum>j\<le>n - k. (x gchoose j) * (g k * ((sum_list xs + sum_list ys) gchoose (n - j - k))))
        = g k * (\<Sum>j\<le>n - k. (x gchoose j) * ((sum_list xs + sum_list ys) gchoose (n - k - j)))"
      by (simp only: sum_distrib_left)
  qed
  also have "\<dots> = (\<Sum>k\<le>n. g k * ((x + (sum_list xs + sum_list ys)) gchoose (n - k)))"
    by (simp only: gbinomial_Vandermonde_real)
  finally show ?case by (simp add: add.assoc)
qed

lemma cumprod_from_general:
  fixes h :: "nat \<Rightarrow> 'b \<Rightarrow> real"
  shows "a \<le> n \<Longrightarrow>
    cumprod_from (map (\<lambda>m. \<Prod>i<a. h i m) ms) (map (\<lambda>j. map (h j) ms) [a..<n])
      = map (\<lambda>j. map (\<lambda>m. \<Prod>i<Suc j. h i m) ms) [a..<n]"
proof (induction "n - a" arbitrary: a)
  case 0
  then show ?case by simp
next
  case (Suc d)
  then have an: "a < n" by simp
  have upt: "[a..<n] = a # [Suc a..<n]" using an by (rule upt_conv_Cons)
  have step: "map2 (*) (map (\<lambda>m. \<Prod>i<a. h i m) ms) (map (h a) ms)
      = map (\<lambda>m. \<Prod>i<Suc a. h i m) ms"
    by (simp add: map2_mult_map)
  have IH: "cumprod_from (map (\<lambda>m. \<Prod>i<Suc a. h i m) ms) (map (\<lambda>j. map (h j) ms) [Suc a..<n])
      = map (\<lambda>j. map (\<lambda>m. \<Prod>i<Suc j. h i m) ms) [Suc a..<n]"
    using Suc.hyps(1)[of "Suc a"] Suc.hyps(2) an by simp
  show ?case
    unfolding upt by (simp only: list.map cumprod_from.simps Let_def step IH)
qed

lemma cumprod_rows_general:
  fixes h :: "nat \<Rightarrow> 'b \<Rightarrow> real"
  shows "cumprod_rows (map (\<lambda>j. map (h j) ms) [0..<n])
      = map (\<lambda>j. map (\<lambda>m. \<Prod>i<Suc j. h i m) ms) [0..<n]"
proof (cases n)
  case 0
  then show ?thesis by (simp add: cumprod_rows_def)
next
  case (Suc n')
  have upt: "[0..<n] = 0 # [Suc 0..<n]" using Suc by (simp add: upt_conv_Cons del: upt_Suc)
  have first: "map (h 0) ms = map (\<lambda>m. \<Prod>i<Suc 0. h i m) ms" by simp
  have "cumprod_from (map (\<lambda>m. \<Prod>i<Suc 0. h i m) ms) (map (\<lambda>j. map (h j) ms) [Suc 0..<n])
      = map (\<lambda>j. map (\<lambda>m. \<Prod>i<Suc j. h i m) ms) [Suc 0..<n]"
    by (rule cumprod_from_general) (use Suc in simp)
  then show ?thesis
    unfolding upt cumprod_rows_def list.map list.case first by simp
qed

lemma replicate_update:
  "j < p \<Longrightarrow> (replicate p c)[j := v] = map (\<lambda>m. if j = m then v else c) [0..<p]"
  by (rule nth_equalityI) (auto simp: nth_list_update)

lemma tl_shifted_table_nth:
  "j < p \<Longrightarrow> k < length bc \<Longrightarrow> tl (shifted_table bc p) ! j ! k = real p * bc ! k - real j"
  by (simp add: shifted_table_def)

lemma diagonal_table:
  assumes "k < length bc"
  shows "set_diagonal (einsum_FF (tl (shifted_table bc p)) (length bc) p ! k) (real p)
      = map (\<lambda>j. map (\<lambda>m. if j = m then real p else real p * bc ! k - real j) [0..<p]) [0..<p]"
proof -
  have e: "einsum_FF (tl (shifted_table bc p)) (length bc) p ! k
      = map (\<lambda>j. replicate p (tl (shifted_table bc p) ! j ! k)) [0..<p]"
    using assms by (simp add: einsum_FF_def)
  show ?thesis
    unfolding e set_diagonal_def
    by (rule nth_equalityI) (simp_all add: replicate_update tl_shifted_table_nth assms)
qed

lemma sum_list_upt_if_le:
  fixes g :: "nat \<Rightarrow> real"
  assumes "j < p"
  shows "(\<Sum>m\<leftarrow>[0..<p]. if m \<le> j then g m else 0) = (\<Sum>m<Suc j. g m)"
proof -
  have "(\<Sum>m\<leftarrow>[0..<p]. if m \<le> j then g m else 0) = (\<Sum>m\<in>{0..<p}. if m \<le> j then g m else 0)"
    by (simp add: interv_sum_list_conv_sum_set_nat)
  also have "\<dots> = (\<Sum>m\<in>{0..<p} \<inter> {m. m \<le> j}. g m)"
    by (simp add: sum.inter_restrict)
  also have "{0..<p} \<inter> {m. m \<le> j} = {..<Suc j}" using assms by auto
  finally show ?thesis .
qed

lemma diagonal_product:
  assumes "m \<le> j"
  shows "(\<Prod>i<Suc j. if i = m then c else x - real i) = c * (\<Prod>i\<in>{..<Suc j} - {m}. x - real i)"
proof -
  have "(\<Prod>i\<in>{..<Suc j}. if i = m then c else x - real i)
      = (if m = m then c else x - real m) * (\<Prod>i\<in>{..<Suc j} - {m}. if i = m then c else x - real i)"
    by (rule prod.remove) (use assms in simp_all)
  moreover have "(\<Prod>i\<in>{..<Suc j} - {m}. if i = m then c else x - real i)
      = (\<Prod>i\<in>{..<Suc j} - {m}. x - real i)"
    by (rule prod.cong) simp_all
  ultimately show ?thesis by simp
qed

lemma tril_sums:
  assumes "j < p"
  shows "(\<Sum>m\<leftarrow>[0..<p]. if m \<le> j then (\<Prod>i<Suc j. if i = m then c else x - real i) else 0)
      = c * falling_deriv (Suc j) x"
proof -
  have "(\<Sum>m\<leftarrow>[0..<p]. if m \<le> j then (\<Prod>i<Suc j. if i = m then c else x - real i) else 0)
      = (\<Sum>m<Suc j. \<Prod>i<Suc j. if i = m then c else x - real i)"
    by (rule sum_list_upt_if_le[OF assms])
  also have "\<dots> = (\<Sum>m<Suc j. c * (\<Prod>i\<in>{..<Suc j} - {m}. x - real i))"
    by (rule sum.cong[OF refl]) (simp only: diagonal_product lessThan_iff less_Suc_eq_le)
  finally show ?thesis by (simp only: falling_deriv_def sum_distrib_left)
qed

lemma tril_table:
  "tril (map (\<lambda>j. map (g j) [0..<p]) [0..<q])
     = map (\<lambda>j. map (\<lambda>m. if m \<le> j then g j m else 0) [0..<p]) [0..<q]"
  by (simp add: tril_def cong: map_cong)

lemma swapaxes_table:
  "swapaxes (map (\<lambda>k. map (\<lambda>j. G j k) [0..<p]) [0..<n]) n p
     = map (\<lambda>j. map (\<lambda>k. G j k) [0..<n]) [0..<p]"
  by (simp add: swapaxes_def cong: map_cong)

lemma map_over_indices: "map (\<lambda>k. f (xs ! k)) [0..<length xs] = map f xs"
proof -
  have "map f (map ((!) xs) [0..<length xs]) = map f xs" by (simp only: map_nth)
  then show ?thesis by (simp add: comp_def)
qed

lemma grad_column_sums:
  assumes "k < length bc"
  shows "map sum_list (tril (cumprod_rows
           (set_diagonal (einsum_FF (tl (shifted_table bc p)) (length bc) p ! k) (real p))))
      = map (\<lambda>j. real p * falling_deriv (Suc j) (real p * bc ! k)) [0..<p]"
proof -
  let ?h = "\<lambda>j m. if j = m then real p else real p * bc ! k - real j"
  have "tril (cumprod_rows (map (\<lambda>j. map (?h j) [0..<p]) [0..<p]))
      = map (\<lambda>j. map (\<lambda>m. if m \<le> j then (\<Prod>i<Suc j. ?h i m) else 0) [0..<p]) [0..<p]"
    unfolding cumprod_rows_general by (rule tril_table)
  then have "map sum_list (tril (cumprod_rows (map (\<lambda>j. map (?h j) [0..<p]) [0..<p])))
      = map (\<lambda>j. \<Sum>m\<leftarrow>[0..<p]. if m \<le> j then (\<Prod>i<Suc j. ?h i m) else 0) [0..<p]"
    by (simp add: comp_def)
  also have "\<dots> = map (\<lambda>j. real p * falling_deriv (Suc j) (real p * bc ! k)) [0..<p]"
    by (rule map_cong[OF refl]) (simp add: tril_sums)
  finally show ?thesis unfolding diagonal_table[OF assms] .
qed

lemma grad_table_value:
  assumes "p \<le> 20"
  shows "grad_table bc p (map (\<lambda>v. 1 / real_of_int v) (multiply_accumulate (map int [1..<p + 1])))
      = map (\<lambda>k. map (\<lambda>b. real p * falling_deriv k (real p * b) / fact k) bc) [0..<Suc p]"
proof -
  let ?E = "einsum_FF (tl (shifted_table bc p)) (length bc) p"
  let ?G = "\<lambda>j b. real p * falling_deriv (Suc j) (real p * b)"
  have lenE: "length ?E = length bc" by (simp add: einsum_FF_def)
  have "map (\<lambda>T. map sum_list (tril T)) (map (\<lambda>T. cumprod_rows (set_diagonal T (real p))) ?E)
      = map (\<lambda>k. map sum_list (tril (cumprod_rows (set_diagonal (?E ! k) (real p))))) [0..<length ?E]"
    by (simp add: comp_def map_over_indices[symmetric, of _ ?E])
  also have "\<dots> = map (\<lambda>k. map (\<lambda>j. ?G j (bc ! k)) [0..<p]) [0..<length bc]"
    unfolding lenE by (rule map_cong[OF refl]) (simp add: grad_column_sums)
  finally have S: "map (\<lambda>T. map sum_list (tril T)) (map (\<lambda>T. cumprod_rows (set_diagonal T (real p))) ?E)
      = map (\<lambda>k. map (\<lambda>j. ?G j (bc ! k)) [0..<p]) [0..<length bc]" .
  have F1: "swapaxes (map (\<lambda>k. map (\<lambda>j. ?G j (bc ! k)) [0..<p]) [0..<length bc]) (length bc) p
      = map (\<lambda>j. map (?G j) bc) [0..<p]"
  proof -
    have "map (\<lambda>k. ?G j (bc ! k)) [0..<length bc] = map (?G j) bc" for j
      by (rule map_over_indices[of "?G j" bc])
    then show ?thesis unfolding swapaxes_table by simp
  qed
  have P: "map (\<lambda>v. 1 / real_of_int v) (multiply_accumulate (map int [1..<p + 1]))
      = map (\<lambda>j. 1 / fact (Suc j)) [0..<p]"
  proof -
    have "[1..<p + 1] = map Suc [0..<p]" by (simp add: map_Suc_upt del: upt_Suc)
    then show ?thesis
      unfolding multiply_accumulate_fact[OF assms] by (simp add: comp_def del: upt_Suc fact_Suc)
  qed
  have rows: "map2 (\<lambda>row c. map (\<lambda>v. v * c) row) (map (\<lambda>j. map (?G j) bc) [0..<p])
        (map (\<lambda>j. 1 / fact (Suc j)) [0..<p])
      = map (\<lambda>j. map (\<lambda>b. real p * falling_deriv (Suc j) (real p * b) / fact (Suc j)) bc) [0..<p]"
    unfolding map2_map_map by (simp add: comp_def del: fact_Suc)
  have zero: "replicate (length bc) (0::real)
      = map (\<lambda>b. real p * falling_deriv 0 (real p * b) / fact 0) bc"
    by (simp add: falling_deriv_def map_replicate_const)
  have upt: "[0..<Suc p] = 0 # map Suc [0..<p]"
    by (simp add: map_Suc_upt upt_conv_Cons del: upt_Suc)
  show ?thesis
    unfolding grad_table_def Let_def S F1 P scale_rows_def list.case rows zero upt
    by (simp add: comp_def del: upt_Suc fact_Suc)
qed

lemma prod_list_update:
  fixes Q :: "real list"
  assumes "i < length Q"
  shows "prod_list (Q[i := v]) = v * prod_list (take i Q @ drop (Suc i) Q)"
proof -
  have "Q[i := v] = take i Q @ v # drop (Suc i) Q"
    using assms by (rule upd_conv_take_nth_drop)
  then show ?thesis by (simp add: mult_ac)
qed

lemma row_product_update:
  assumes "i < length fs" and "length row = length fs"
  shows "row_product (fs[i := g]) row
     = g (nat (row ! i)) * prod_list (take i (map2 (\<lambda>f k. f (nat k)) fs row)
                                        @ drop (Suc i) (map2 (\<lambda>f k. f (nat k)) fs row))"
proof -
  let ?Q = "map2 (\<lambda>f k. f (nat k)) fs row"
  have "zip (fs[i := g]) (row[i := row ! i]) = (zip fs row)[i := (g, row ! i)]"
    by (rule zip_update)
  then have "map2 (\<lambda>f k. f (nat k)) (fs[i := g]) row = ?Q[i := g (nat (row ! i))]"
    by (simp add: map_update)
  moreover have "i < length ?Q" using assms by simp
  ultimately show ?thesis
    unfolding row_product_def by (simp only: prod_list_update)
qed

lemma simplex_grad_shape_function_value:
  assumes p: "p \<le> 20" and bc: "bc \<noteq> []"
  shows "simplex_grad_shape_function bc p None
         = Inr (map (\<lambda>row. map (\<lambda>i. row_product
                   ((map (\<lambda>b k. (real p * b) gchoose k) bc)
                      [i := \<lambda>k. real p * falling_deriv k (real p * bc ! i) / fact k]) row)
                 [0..<length bc])
               (multi_index_matrix p (length bc - 1)))"
proof -
  let ?mi = "multi_index_matrix p (length bc - 1)"
  let ?fs = "map (\<lambda>b k. (real p * b) gchoose k) bc"
  let ?gs = "map (\<lambda>b k. real p * falling_deriv k (real p * b) / fact k) bc"
  let ?A = "map (\<lambda>k. map (\<lambda>b. (real p * b) gchoose k) bc) [0..<Suc p]"
  let ?F = "map (\<lambda>k. map (\<lambda>b. real p * falling_deriv k (real p * b) / fact k) bc) [0..<Suc p]"
  let ?idx = "map int [0..<length bc]"
  let ?out = "\<lambda>row. map (\<lambda>i. row_product
                   (?fs[i := \<lambda>k. real p * falling_deriv k (real p * bc ! i) / fact k]) row)
                 [0..<length bc]"
  have row: "(case gather ?A row ?idx of
                Inl e \<Rightarrow> Inl e
              | Inr Q \<Rightarrow>
                  (case gather ?F row ?idx of
                     Inl e \<Rightarrow> Inl e
                   | Inr M \<Rightarrow>
                       Inr (map (\<lambda>i. M ! i * prod_list (take i Q @ drop (Suc i) Q))
                              [0..<length bc])))
      = Inr (?out row)" if "row \<in> set ?mi" for row
  proof -
    from multi_index_matrix_row[OF that] bc
    have len: "length row = length bc" and nn: "\<forall>k\<in>set row. 0 \<le> k"
      and s: "sum_list row = int p" by simp_all
    have rng: "0 \<le> k \<and> k \<le> int p" if "k \<in> set row" for k
      using member_le_sum_list[of k row] nn s that by fastforce
    have Q: "gather ?A row ?idx = Inr (map2 (\<lambda>f k. f (nat k)) ?fs row)"
      by (rule gather_binomial_table[OF len rng])
    have M: "gather ?F row ?idx = Inr (map2 (\<lambda>f k. f (nat k)) ?gs row)"
      by (rule gather_binomial_table[OF len rng])
    have "map2 (\<lambda>f k. f (nat k)) ?gs row ! i
            * prod_list (take i (map2 (\<lambda>f k. f (nat k)) ?fs row)
                         @ drop (Suc i) (map2 (\<lambda>f k. f (nat k)) ?fs row))
        = row_product (?fs[i := \<lambda>k. real p * falling_deriv k (real p * bc ! i) / fact k]) row"
      if "i < length bc" for i
      using that len by (simp add: row_product_update)
    then show ?thesis unfolding Q M by simp
  qed
  have "mapM (\<lambda>row. case gather ?A row ?idx of
                Inl e \<Rightarrow> Inl e
              | Inr Q \<Rightarrow>
                  (case gather ?F row ?idx of
                     Inl e \<Rightarrow> Inl e
                   | Inr M \<Rightarrow>
                       Inr (map (\<lambda>i. M ! i * prod_list (take i Q @ drop (Suc i) Q))
                              [0..<length bc]))) ?mi
      = Inr (map ?out ?mi)"
    by (rule mapM_Inr) (rule row)
  then show ?thesis
    unfolding simplex_grad_shape_function_def Let_def binomial_table[OF p] grad_table_value[OF p]
    using bc multiply_accumulate_nonzero[OF p]
    by (simp del: upt_Suc)
qed

lemma sum_list_without:
  fixes xs :: "real list"
  assumes "i < length xs"
  shows "sum_list (take i xs) + sum_list (drop (Suc i) xs) = sum_list xs - xs ! i"
proof -
  have "xs = take i xs @ xs ! i # drop (Suc i) xs"
    using assms by (rule id_take_nth_drop)
  then have "sum_list xs = sum_list (take i xs) + (xs ! i + sum_list (drop (Suc i) xs))"
    by (metis sum_list.Cons sum_list.append)
  then show ?thesis by simp
qed

lemma convolution_gradient_column:
  assumes i: "i < length bc" and s: "sum_list bc = 1"
  shows "convolution ((map (\<lambda>b k. (real p * b) gchoose k) bc)
           [i := \<lambda>k. real p * falling_deriv k (real p * bc ! i) / fact k]) p
         = real p * (\<Sum>k = 1..p. 1 / real k)"
proof -
  let ?xs = "map (\<lambda>b. real p * b) bc"
  let ?g = "\<lambda>k. real p * falling_deriv k (real p * bc ! i) / fact k"
  have fs: "map (\<lambda>b k. (real p * b) gchoose k) bc = map (\<lambda>x k. x gchoose k) ?xs"
    by (simp add: comp_def)
  have upd: "(map (\<lambda>x k. x gchoose k) ?xs)[i := ?g]
      = map (\<lambda>x k. x gchoose k) (take i ?xs) @ ?g # map (\<lambda>x k. x gchoose k) (drop (Suc i) ?xs)"
    using i by (simp add: upd_conv_take_nth_drop take_map drop_map)
  have total: "sum_list ?xs = real p" by (simp add: sum_list_const_mult s)
  have rest: "sum_list (take i ?xs) + sum_list (drop (Suc i) ?xs) = real p - real p * bc ! i"
    using sum_list_without[of i ?xs] i total by simp
  have "convolution ((map (\<lambda>x k. x gchoose k) ?xs)[i := ?g]) p
      = (\<Sum>k\<le>p. ?g k * ((real p - real p * bc ! i) gchoose (p - k)))"
    unfolding upd convolution_one_factor rest ..
  also have "\<dots> = real p * (\<Sum>k\<le>p. falling_deriv k (real p * bc ! i) / fact k
                                  * ((real p - real p * bc ! i) gchoose (p - k)))"
    by (simp add: sum_distrib_left mult.assoc)
  also have "\<dots> = real p * (falling_deriv p (real p * bc ! i + (real p - real p * bc ! i)) / fact p)"
    by (simp only: Vandermonde_derivative)
  also have "\<dots> = real p * (\<Sum>k = 1..p. 1 / real k)"
    by (simp add: falling_deriv_at_degree)
  finally show ?thesis unfolding fs .
qed

lemma cwr_single: "combinations_with_replacement [b] n = [replicate n b]"
  by (induction n) simp_all

lemma cwr_pair:
  "combinations_with_replacement [a, b] r
     = map (\<lambda>k. replicate (r - k) a @ replicate k b) [0..<Suc r]"
proof (induction r)
  case 0
  then show ?case by simp
next
  case (Suc r)
  have "map ((#) a) (map (\<lambda>k. replicate (r - k) a @ replicate k b) [0..<Suc r])
      = map (\<lambda>k. replicate (Suc r - k) a @ replicate k b) [0..<Suc r]"
    unfolding map_map comp_def
  proof (rule map_cong[OF refl])
    fix k assume "k \<in> set [0..<Suc r]"
    then have "k \<le> r" by auto
    then have "Suc r - k = Suc (r - k)" by (rule Suc_diff_le)
    then show "a # replicate (r - k) a @ replicate k b = replicate (Suc r - k) a @ replicate k b"
      by simp
  qed
  moreover have "[0..<Suc (Suc r)] = [0..<Suc r] @ [Suc r]" by simp
  ultimately show ?case
    using Suc.IH by (simp add: cwr_single del: upt_Suc)
qed

lemma row_diff_ones: "row_diff (replicate (Suc k) 1) = replicate k 0"
  by (induction k) simp_all

lemma row_diff_step: "row_diff (replicate m 0 @ 0 # replicate (Suc k) 1) = replicate m 0 @ 1 # replicate k 0"
proof (induction m)
  case 0
  then show ?case using row_diff_ones[of k] by simp
next
  case (Suc m)
  then show ?case by (cases m) simp_all
qed

lemma multi_index_matrix_one:
  "multi_index_matrix 1 d = map (\<lambda>r. replicate r 0 @ 1 # replicate (d - r) 0) [0..<Suc d]"
proof -
  have pool: "map int [0..<1 + 1] = [0, 1]" by (simp add: upt_rec)
  have row: "row_diff (0 # (replicate (d - k) 0 @ replicate k 1) @ [int 1])
      = replicate (d - k) 0 @ 1 # replicate k 0" for k
  proof -
    have "0 # (replicate (d - k) 0 @ replicate k 1) @ [int 1]
        = replicate (d - k) 0 @ 0 # replicate (Suc k) (1::int)"
      by (simp add: replicate_append_same)
    then show ?thesis by (simp only: row_diff_step)
  qed
  have "multi_index_matrix 1 d
      = rev (map (\<lambda>k. replicate (d - k) 0 @ 1 # replicate k 0) [0..<Suc d])"
    unfolding mim_unfold pool cwr_pair rev_map[symmetric] map_map comp_def row ..
  also have "\<dots> = map (\<lambda>r. replicate r 0 @ 1 # replicate (d - r) 0) [0..<Suc d]"
    by (rule nth_equalityI) (auto simp: rev_nth simp del: upt_Suc)
  finally show ?thesis .
qed

lemma row_product_append:
  "length fs = length r1 \<Longrightarrow> row_product (fs @ gs) (r1 @ r2) = row_product fs r1 * row_product gs r2"
  by (simp add: row_product_def)

lemma row_product_zeros:
  "row_product (map (\<lambda>b k. (c * b) gchoose k) xs) (replicate (length xs) 0) = 1"
  by (induction xs) simp_all

lemma row_product_unit:
  assumes "r < length bs"
  shows "row_product (map (\<lambda>b k. (c * b) gchoose k) bs)
           (replicate r 0 @ 1 # replicate (length bs - Suc r) 0) = c * bs ! r"
proof -
  let ?F = "\<lambda>b k. (c * b :: real) gchoose k"
  have split: "map ?F bs = map ?F (take r bs) @ ?F (bs ! r) # map ?F (drop (Suc r) bs)"
    using id_take_nth_drop[OF assms] by (metis list.simps(9) map_append)
  have l: "length (map ?F (take r bs)) = length (replicate r (0::int))"
    using assms by simp
  have a: "row_product (map ?F (take r bs)) (replicate r 0) = 1"
    using row_product_zeros[of c "take r bs"] assms by simp
  have b: "row_product (map ?F (drop (Suc r) bs)) (replicate (length bs - Suc r) 0) = 1"
    using row_product_zeros[of c "drop (Suc r) bs"] by simp
  show ?thesis
    unfolding split row_product_append[OF l] a by (simp add: b)
qed

lemma simplex_shape_function_closed_form:
  assumes p: "p \<le> 20" and bc: "bc \<noteq> []"
  shows "simplex_shape_function bc p None
         = Inr (map (row_product (map (\<lambda>b k. (real p * b) gchoose k) bc))
                  (multi_index_matrix p (length bc - 1)))"
proof (cases "p = 1")
  case False
  then show ?thesis by (rule simplex_shape_function_value[OF p _ bc])
next
  case True
  from bc obtain d where d: "length bc = Suc d" by (cases bc) auto
  have "map (row_product (map (\<lambda>b k. (real 1 * b) gchoose k) bc)) (multi_index_matrix 1 d)
      = map (\<lambda>r. row_product (map (\<lambda>b k. (real 1 * b) gchoose k) bc)
                    (replicate r 0 @ 1 # replicate (length bc - Suc r) 0)) [0..<length bc]"
    unfolding multi_index_matrix_one d by (simp add: comp_def del: upt_Suc)
  also have "\<dots> = map (\<lambda>r. real 1 * bc ! r) [0..<length bc]"
  proof (rule map_cong[OF refl])
    fix r assume "r \<in> set [0..<length bc]"
    then have "r < length bc" by simp
    then show "row_product (map (\<lambda>b k. (real 1 * b) gchoose k) bc)
                 (replicate r 0 @ 1 # replicate (length bc - Suc r) 0) = real 1 * bc ! r"
      by (rule row_product_unit)
  qed
  also have "\<dots> = bc" by (simp add: map_nth)
  finally show ?thesis
    using True d by (simp add: simplex_shape_function_def)
qed

lemma DERIV_scaled_gbinomial:
  "((\<lambda>x. (c * x) gchoose k) has_real_derivative c * falling_deriv k (c * x) / fact k) (at x)"
proof -
  have "((\<lambda>x. c * x) has_real_derivative c) (at x)"
    by (auto intro!: derivative_eq_intros)
  from DERIV_chain2[OF DERIV_gbinomial this, of k]
  show ?thesis by (simp add: mult.commute)
qed

lemma DERIV_row_product:
  assumes i: "i < length bc" and len: "length row = length bc"
  shows "((\<lambda>x. row_product (map (\<lambda>b k. (c * b) gchoose k) (bc[i := x])) row)
            has_real_derivative
          row_product ((map (\<lambda>b k. (c * b) gchoose k) bc)
                         [i := \<lambda>k. c * falling_deriv k (c * bc ! i) / fact k]) row)
           (at (bc ! i))"
proof -
  let ?F = "\<lambda>b k. (c * b :: real) gchoose k"
  let ?fs = "map ?F bc"
  let ?C = "prod_list (take i (map2 (\<lambda>f k. f (nat k)) ?fs row)
                        @ drop (Suc i) (map2 (\<lambda>f k. f (nat k)) ?fs row))"
  have l1: "i < length ?fs" and l2: "length row = length ?fs" using i len by simp_all
  have f: "row_product (map ?F (bc[i := x])) row = ((c * x) gchoose nat (row ! i)) * ?C" for x
    unfolding map_update row_product_update[OF l1 l2] ..
  have "((\<lambda>x. ((c * x) gchoose nat (row ! i)) * ?C) has_real_derivative
          c * falling_deriv (nat (row ! i)) (c * bc ! i) / fact (nat (row ! i)) * ?C) (at (bc ! i))"
    by (rule DERIV_cmult_right) (rule DERIV_scaled_gbinomial)
  then show ?thesis
    unfolding f row_product_update[OF l1 l2] .
qed

text \<open>
  Claim C3, as amended. The kernel returns the partial derivatives of the shape functions
  with respect to the barycentric coordinates, each coordinate taken as an independent
  variable. For every degree \<open>p \<le> 20\<close>, every dimension and every point whose coordinates
  sum to 1, the result has \<open>C(p + TD, TD)\<close> rows of \<open>TD + 1\<close> entries; entry \<open>(r, i)\<close> is the
  derivative, with respect to coordinate \<open>i\<close> alone, of the value \<open>simplex_shape_function\<close>
  returns for shape function \<open>r\<close>; and the sum over the shape functions (axis \<open>-2\<close>) is the
  same in each of the \<open>TD + 1\<close> directions, namely \<open>p * (1 + 1/2 + ... + 1/p)\<close>, which is
  zero for \<open>p = 0\<close>. So the sum of the gradients is a multiple of \<open>(1, ..., 1)\<close>, which is
  what the shape functions' summing to 1 on the simplex amounts to. (Floats are modelled
  by reals.)
\<close>

theorem simplex_grad_shape_function_partial_derivatives:
  assumes p: "p \<le> 20" and s: "sum_list bc = 1"
  shows "\<exists>R. simplex_grad_shape_function bc p None = Inr R
           \<and> length R = (p + (length bc - 1)) choose (length bc - 1)
           \<and> (\<forall>row\<in>set R. length row = length bc)
           \<and> (\<forall>r<length R. \<forall>i<length bc.
                 ((\<lambda>x. case simplex_shape_function (bc[i := x]) p None of
                          Inl e \<Rightarrow> 0 | Inr phi \<Rightarrow> phi ! r)
                    has_real_derivative R ! r ! i) (at (bc ! i)))
           \<and> (\<forall>i<length bc. (\<Sum>row\<leftarrow>R. row ! i) = real p * (\<Sum>k = 1..p. 1 / real k))"
proof -
  have bc: "bc \<noteq> []" using s by auto
  let ?mi = "multi_index_matrix p (length bc - 1)"
  let ?F = "\<lambda>b k. (real p * b) gchoose k"
  let ?fs = "map ?F bc"
  let ?g = "\<lambda>i k. real p * falling_deriv k (real p * bc ! i) / fact k"
  let ?R = "map (\<lambda>row. map (\<lambda>i. row_product (?fs[i := ?g i]) row) [0..<length bc]) ?mi"
  have val: "simplex_grad_shape_function bc p None = Inr ?R"
    by (rule simplex_grad_shape_function_value[OF p bc])
  have len: "length ?R = (p + (length bc - 1)) choose (length bc - 1)"
    by (simp add: length_multi_index_matrix)
  have rows: "\<forall>row\<in>set ?R. length row = length bc" by auto
  have cols: "(\<Sum>row\<leftarrow>?R. row ! i) = real p * (\<Sum>k = 1..p. 1 / real k)" if i: "i < length bc" for i
  proof -
    have "(\<Sum>row\<leftarrow>?R. row ! i) = (\<Sum>row\<leftarrow>?mi. row_product (?fs[i := ?g i]) row)"
      using i by (simp add: comp_def)
    also have "\<dots> = convolution (?fs[i := ?g i]) p"
    proof (rule sum_multi_index_matrix_convolution)
      have "0 < length bc" using bc by simp
      then show "length (?fs[i := ?g i]) = Suc (length bc - 1)" by simp
    qed
    also have "\<dots> = real p * (\<Sum>k = 1..p. 1 / real k)"
      by (rule convolution_gradient_column[OF i s])
    finally show ?thesis .
  qed
  have deriv: "((\<lambda>x. case simplex_shape_function (bc[i := x]) p None of
                          Inl e \<Rightarrow> 0 | Inr phi \<Rightarrow> phi ! r)
                    has_real_derivative ?R ! r ! i) (at (bc ! i))"
    if r: "r < length ?R" and i: "i < length bc" for r i
  proof -
    from r have rm: "r < length ?mi" by simp
    then have "?mi ! r \<in> set ?mi" by (rule nth_mem)
    from multi_index_matrix_row(1)[OF this] bc
    have lr: "length (?mi ! r) = length bc" by simp
    have phi: "(case simplex_shape_function (bc[i := x]) p None of
                  Inl e \<Rightarrow> 0 | Inr phi \<Rightarrow> phi ! r)
        = row_product (map ?F (bc[i := x])) (?mi ! r)" for x
    proof -
      have "bc[i := x] \<noteq> []" using bc by simp
      from simplex_shape_function_closed_form[OF p this] rm
      show ?thesis by simp
    qed
    have entry: "?R ! r ! i = row_product (?fs[i := ?g i]) (?mi ! r)"
      using rm i by simp
    show ?thesis
      unfolding phi entry by (rule DERIV_row_product[OF i lr])
  qed
  show ?thesis
  proof (intro exI conjI)
    show "simplex_grad_shape_function bc p None = Inr ?R" by (rule val)
    show "length ?R = (p + (length bc - 1)) choose (length bc - 1)" by (rule len)
    show "\<forall>row\<in>set ?R. length row = length bc" by (rule rows)
    show "\<forall>r<length ?R. \<forall>i<length bc.
            ((\<lambda>x. case simplex_shape_function (bc[i := x]) p None of
                     Inl e \<Rightarrow> 0 | Inr phi \<Rightarrow> phi ! r)
               has_real_derivative ?R ! r ! i) (at (bc ! i))"
      by (intro allI impI deriv)
    show "\<forall>i<length bc. (\<Sum>row\<leftarrow>?R. row ! i) = real p * (\<Sum>k = 1..p. 1 / real k)"
      by (intro allI impI cols)
  qed
qed

theorem simplex_grad_shape_function_partial_derivatives_witness:
  "simplex_grad_shape_function [1 / 2, 1 / 2] 2 None = Inr [[1, 0], [2, 2], [0, 1]]
   \<and> ((\<lambda>x. case simplex_shape_function ([1 / 2, 1 / 2][0 := x]) 2 None of
              Inl e \<Rightarrow> 0 | Inr phi \<Rightarrow> phi ! 0) has_real_derivative 1) (at (1 / 2))
   \<and> ((\<lambda>x. case simplex_shape_function ([1 / 2, 1 / 2][1 := x]) 2 None of
              Inl e \<Rightarrow> 0 | Inr phi \<Rightarrow> phi ! 1) has_real_derivative 2) (at (1 / 2))
   \<and> (\<Sum>row\<leftarrow>[[1, 0], [2, 2], [0, 1 :: real]]. row ! 0) = real 2 * (\<Sum>k = 1..2. 1 / real k)
   \<and> (\<Sum>row\<leftarrow>[[1, 0], [2, 2], [0, 1 :: real]]. row ! 1) = real 2 * (\<Sum>k = 1..2. 1 / real k)"
proof -
  have e: "simplex_grad_shape_function [1 / 2, 1 / 2] 2 None = Inr [[1, 0], [2, 2], [0, 1]]"
    by code_simp
  have h: "(2::nat) \<le> 20" "sum_list [1 / 2, 1 / 2 :: real] = 1" by simp_all
  from simplex_grad_shape_function_partial_derivatives[OF h]
  have d: "\<forall>r<3. \<forall>i<2.
           ((\<lambda>x. case simplex_shape_function ([1 / 2, 1 / 2][i := x]) 2 None of
                    Inl e \<Rightarrow> 0 | Inr phi \<Rightarrow> phi ! r)
              has_real_derivative [[1, 0], [2, 2], [0, 1]] ! r ! i) (at ([1 / 2, 1 / 2] ! i))"
    and c: "\<forall>i<2. (\<Sum>row\<leftarrow>[[1, 0], [2, 2], [0, 1 :: real]]. row ! i)
                  = real 2 * (\<Sum>k = 1..2. 1 / real k)"
    unfolding e by simp_all
  from d[rule_format, of 0 0] d[rule_format, of 1 1] c[rule_format, of 0] c[rule_format, of 1] e
  show ?thesis by simp
qed

text \<open>
  The claim as stated says that the sums over the last axis, the \<open>TD + 1\<close> directions,
  vanish. For \<open>p = 1\<close> the kernel returns the identity matrix, whose rows sum to 1.
\<close>

theorem simplex_grad_shape_function_row_sums:
  "simplex_grad_shape_function [1 / 2, 1 / 2] 1 None = Inr [[1, 0], [0, 1]]
   \<and> map sum_list [[1, 0], [0, 1 :: real]] = [1, 1]"
proof -
  have "simplex_grad_shape_function [1 / 2, 1 / 2] 1 None = Inr [[1, 0], [0, 1]]"
    by code_simp
  then show ?thesis by simp
qed

section \<open>The closed-form multi-index matrix on intervals and triangles\<close>

lemma triangular_root:
  fixes k r :: nat
  assumes "r \<le> k"
  shows "\<lfloor>(- 1 + sqrt (1 + 8 * real (k * (k + 1) div 2 + r))) / 2\<rfloor> = int k"
proof -
  have ev: "even (k * (k + 1))" by simp
  then have T: "real (k * (k + 1) div 2) = real k * (real k + 1) / 2"
    by (simp add: real_of_nat_div algebra_simps)
  let ?v = "1 + 8 * real (k * (k + 1) div 2 + r)"
  have "?v = 1 + 8 * (real (k * (k + 1) div 2) + real r)"
    by (simp only: of_nat_add)
  also have "\<dots> = 1 + 8 * (real k * (real k + 1) / 2 + real r)"
    by (simp only: T)
  also have "\<dots> = (2 * real k + 1) ^ 2 + 8 * real r"
    by (simp add: power2_eq_square algebra_simps)
  finally have v: "?v = (2 * real k + 1) ^ 2 + 8 * real r" .
  have lo: "(2 * real k + 1) ^ 2 \<le> ?v" unfolding v by simp
  have hi: "?v < (2 * real k + 3) ^ 2"
    unfolding v using assms by (simp add: power2_eq_square algebra_simps)
  have "sqrt ((2 * real k + 1) ^ 2) \<le> sqrt ?v" using lo by (rule real_sqrt_le_mono)
  then have l: "2 * real k + 1 \<le> sqrt ?v" by simp
  have "sqrt ?v < sqrt ((2 * real k + 3) ^ 2)" using hi by (rule real_sqrt_less_mono)
  then have h: "sqrt ?v < 2 * real k + 3" by simp
  show ?thesis
    by (rule floor_unique) (use l h in simp_all)
qed


lemma trunc_of_int: "trunc (real_of_int z) = z"
  by (simp add: trunc_def)

lemma jax_row2_block:
  assumes "r \<le> k"
  shows "jax_row2 p (k * (k + 1) div 2 + r) = [int p - int k, int k - int r, int r]"
proof -
  have ev: "even (k * (k + 1))" by simp
  then have T: "real (k * (k + 1) div 2) = real k * (real k + 1) / 2"
    by (simp add: real_of_nat_div algebra_simps)
  have idx0: "real_of_int \<lfloor>(- 1 + sqrt (1 + 8 * real (k * (k + 1) div 2 + r))) / 2\<rfloor> = real k"
    by (simp only: triangular_root[OF assms] of_int_of_nat_eq)
  have "real (k * (k + 1) div 2) + real r - real k * (real k + 1) / 2 = real r"
    by (simp only: T add_diff_cancel_left')
  then have "real (k * (k + 1) div 2 + r) - real k * (real k + 1) / 2 = real_of_int (int r)"
    by (simp only: of_nat_add of_int_of_nat_eq)
  then have m2: "trunc (real (k * (k + 1) div 2 + r) - real k * (real k + 1) / 2) = int r"
    by (simp only: trunc_of_int)
  have "real k - real_of_int (int r) = real_of_int (int k - int r)" by simp
  then have m1: "trunc (real k - real_of_int (int r)) = int k - int r"
    by (simp only: trunc_of_int)
  show ?thesis
    unfolding jax_row2_def Let_def idx0 m2 m1 by simp
qed

lemma triangular_Suc: "Suc n * (Suc n + 1) div 2 = n * (n + 1) div 2 + Suc n"
proof -
  have "Suc n * (Suc n + 1) = n * (n + 1) + 2 * Suc n" by simp
  then show ?thesis by (simp only: div_mult_self4[of 2] ) simp
qed

lemma upt_triangular:
  "[0..<n * (n + 1) div 2] = concat (map (\<lambda>k. map (\<lambda>r. k * (k + 1) div 2 + r) [0..<k + 1]) [0..<n])"
proof (induction n)
  case 0
  then show ?case by simp
next
  case (Suc n)
  let ?T = "n * (n + 1) div 2"
  have "[0..<Suc n * (Suc n + 1) div 2] = [0..<?T + Suc n]"
    by (simp only: triangular_Suc)
  also have "\<dots> = [0..<?T] @ [?T..<?T + Suc n]"
    by (rule upt_add_eq_append) simp
  also have "[?T..<?T + Suc n] = map (\<lambda>r. ?T + r) [0..<n + 1]"
    by (simp add: map_add_upt add.commute del: upt_Suc)
  finally have "[0..<Suc n * (Suc n + 1) div 2] = [0..<?T] @ map (\<lambda>r. ?T + r) [0..<n + 1]" .
  moreover have "concat (map (\<lambda>k. map (\<lambda>r. k * (k + 1) div 2 + r) [0..<k + 1]) [0..<Suc n])
      = concat (map (\<lambda>k. map (\<lambda>r. k * (k + 1) div 2 + r) [0..<k + 1]) [0..<n])
        @ map (\<lambda>r. ?T + r) [0..<n + 1]"
    by simp
  ultimately show ?case by (simp only: Suc.IH)
qed


lemma cwr_one: "combinations_with_replacement pool (Suc 0) = map (\<lambda>x. [x]) pool"
  by (induction pool) simp_all

lemma cwr_two_upt:
  "combinations_with_replacement (map int [a..<n]) (Suc (Suc 0))
     = concat (map (\<lambda>i. map (\<lambda>j. [int i, int j]) [i..<n]) [a..<n])"
proof (induction "n - a" arbitrary: a)
  case 0
  then show ?case by simp
next
  case (Suc d)
  then have an: "a < n" by simp
  have upt: "[a..<n] = a # [Suc a..<n]" using an by (rule upt_conv_Cons)
  have IH: "combinations_with_replacement (map int [Suc a..<n]) (Suc (Suc 0))
      = concat (map (\<lambda>i. map (\<lambda>j. [int i, int j]) [i..<n]) [Suc a..<n])"
    using Suc.hyps(1)[of "Suc a"] Suc.hyps(2) by simp
  have "combinations_with_replacement (map int (a # [Suc a..<n])) (Suc (Suc 0))
      = map ((#) (int a)) (map (\<lambda>x. [x]) (map int (a # [Suc a..<n])))
        @ combinations_with_replacement (map int [Suc a..<n]) (Suc (Suc 0))"
    by (simp only: list.map combinations_with_replacement.simps cwr_one)
  also have "map ((#) (int a)) (map (\<lambda>x. [x]) (map int (a # [Suc a..<n])))
      = map (\<lambda>j. [int a, int j]) [a..<n]"
    unfolding upt[symmetric] by (simp add: comp_def)
  finally have E: "combinations_with_replacement (map int (a # [Suc a..<n])) (Suc (Suc 0))
      = map (\<lambda>j. [int a, int j]) [a..<n]
        @ concat (map (\<lambda>i. map (\<lambda>j. [int i, int j]) [i..<n]) [Suc a..<n])"
    unfolding IH .
  have L: "combinations_with_replacement (map int [a..<n]) (Suc (Suc 0))
      = combinations_with_replacement (map int (a # [Suc a..<n])) (Suc (Suc 0))"
    by (simp only: upt[symmetric])
  have "concat (map (\<lambda>i. map (\<lambda>j. [int i, int j]) [i..<n]) [a..<n])
      = concat (map (\<lambda>i. map (\<lambda>j. [int i, int j]) [i..<n]) (a # [Suc a..<n]))"
    by (simp only: upt[symmetric])
  also have "\<dots> = map (\<lambda>j. [int a, int j]) [a..<n]
        @ concat (map (\<lambda>i. map (\<lambda>j. [int i, int j]) [i..<n]) [Suc a..<n])"
    by (simp only: list.map concat.simps)
  finally show ?case using L E by simp
qed

lemma rev_map_upt:
  "rev (map G [i..<n]) = map (\<lambda>r. G (n - 1 - r)) [0..<n - i]"
  by (rule nth_equalityI) (auto simp: rev_nth)

lemma concat_map_cong2:
  assumes "\<And>k r. k \<in> set ks \<Longrightarrow> r \<in> set (rs k) \<Longrightarrow> f k r = g k r"
  shows "concat (map (\<lambda>k. map (f k) (rs k)) ks) = concat (map (\<lambda>k. map (g k) (rs k)) ks)"
proof -
  have "map (\<lambda>k. map (f k) (rs k)) ks = map (\<lambda>k. map (g k) (rs k)) ks"
    by (intro map_cong refl) (rule assms)
  then show ?thesis by (rule arg_cong[where f = concat])
qed

lemma multi_index_matrix_triangle:
  "multi_index_matrix p 2
     = concat (map (\<lambda>k. map (\<lambda>r. [int p - int k, int k - int r, int r]) [0..<k + 1]) [0..<p + 1])"
proof -
  let ?g = "\<lambda>s. row_diff (0 # s @ [int p])"
  have "multi_index_matrix p 2
      = map ?g (rev (concat (map (\<lambda>i. map (\<lambda>j. [int i, int j]) [i..<p + 1]) [0..<p + 1])))"
    unfolding mim_unfold by (simp only: numeral_2_eq_2 cwr_two_upt)
  also have "rev (concat (map (\<lambda>i. map (\<lambda>j. [int i, int j]) [i..<p + 1]) [0..<p + 1]))
      = concat (map (\<lambda>k. map (\<lambda>r. [int (p - k), int (p - r)]) [0..<k + 1]) [0..<p + 1])"
  proof -
    have "rev (concat (map (\<lambda>i. map (\<lambda>j. [int i, int j]) [i..<p + 1]) [0..<p + 1]))
        = concat (map rev (rev (map (\<lambda>i. map (\<lambda>j. [int i, int j]) [i..<p + 1]) [0..<p + 1])))"
      by (rule rev_concat)
    also have "rev (map (\<lambda>i. map (\<lambda>j. [int i, int j]) [i..<p + 1]) [0..<p + 1])
        = map (\<lambda>k. map (\<lambda>j. [int (p - k), int j]) [p - k..<p + 1]) [0..<p + 1]"
      by (simp add: rev_map_upt del: upt_Suc)
    also have "map rev (map (\<lambda>k. map (\<lambda>j. [int (p - k), int j]) [p - k..<p + 1]) [0..<p + 1])
        = map (\<lambda>k. map (\<lambda>r. [int (p - k), int (p - r)]) [0..<k + 1]) [0..<p + 1]"
    proof -
      have "rev (map (\<lambda>j. [int (p - k), int j]) [p - k..<p + 1])
          = map (\<lambda>r. [int (p - k), int (p - r)]) [0..<k + 1]" if "k \<in> set [0..<p + 1]" for k
      proof -
        from that have "p + 1 - (p - k) = k + 1" by auto
        then show ?thesis by (simp add: rev_map_upt del: upt_Suc)
      qed
      then show ?thesis by (simp del: upt_Suc cong: map_cong)
    qed
    finally show ?thesis .
  qed
  also have "map ?g (concat (map (\<lambda>k. map (\<lambda>r. [int (p - k), int (p - r)]) [0..<k + 1]) [0..<p + 1]))
      = concat (map (\<lambda>k. map (\<lambda>r. [int p - int k, int k - int r, int r]) [0..<k + 1]) [0..<p + 1])"
  proof -
    have "map ?g (concat (map (\<lambda>k. map (\<lambda>r. [int (p - k), int (p - r)]) [0..<k + 1]) [0..<p + 1]))
        = concat (map (\<lambda>k. map (\<lambda>r. ?g [int (p - k), int (p - r)]) [0..<k + 1]) [0..<p + 1])"
      by (simp only: map_concat map_map comp_def)
    also have "\<dots> = concat (map (\<lambda>k. map (\<lambda>r. [int p - int k, int k - int r, int r]) [0..<k + 1]) [0..<p + 1])"
    proof (rule concat_map_cong2)
      fix k r assume "k \<in> set [0..<p + 1]" "r \<in> set [0..<k + 1]"
      then have "k \<le> p" "r \<le> k" by auto
      then show "?g [int (p - k), int (p - r)] = [int p - int k, int k - int r, int r]"
        by (simp add: of_nat_diff)
    qed
    finally show ?thesis .
  qed
  finally show ?thesis .
qed

lemma jax_multi_index_matrix_triangle:
  "jax_multi_index_matrix p 2 = Inr (Some (multi_index_matrix p 2))"
proof -
  have "map (jax_row2 p) [0..<(p + 1) * (p + 2) div 2]
      = map (jax_row2 p)
          (concat (map (\<lambda>k. map (\<lambda>r. k * (k + 1) div 2 + r) [0..<k + 1]) [0..<p + 1]))"
    using upt_triangular[of "p + 1"] by (simp only: add.assoc one_add_one)
  also have "\<dots> = concat (map (\<lambda>k. map (\<lambda>r. jax_row2 p (k * (k + 1) div 2 + r)) [0..<k + 1]) [0..<p + 1])"
    by (simp only: map_concat map_map comp_def)
  also have "\<dots> = concat (map (\<lambda>k. map (\<lambda>r. [int p - int k, int k - int r, int r]) [0..<k + 1]) [0..<p + 1])"
  proof (rule concat_map_cong2)
    fix k r assume "k \<in> set [0..<p + 1]" "r \<in> set [0..<k + 1]"
    then have "r \<le> k" by auto
    then show "jax_row2 p (k * (k + 1) div 2 + r) = [int p - int k, int k - int r, int r]"
      by (rule jax_row2_block)
  qed
  finally show ?thesis
    by (simp add: jax_multi_index_matrix_def multi_index_matrix_triangle)
qed

lemma jax_multi_index_matrix_interval:
  "jax_multi_index_matrix p 1 = Inr (Some (multi_index_matrix p 1))"
proof -
  have "multi_index_matrix p 1
      = map (\<lambda>s. row_diff (0 # s @ [int p])) (rev (map (\<lambda>x. [x]) (map int [0..<p + 1])))"
    unfolding mim_unfold by (simp only: One_nat_def cwr_one)
  also have "rev (map (\<lambda>x. [x]) (map int [0..<p + 1])) = map (\<lambda>r. [int (p - r)]) [0..<p + 1]"
    by (simp add: rev_map_upt comp_def del: upt_Suc)
  also have "map (\<lambda>s. row_diff (0 # s @ [int p])) (map (\<lambda>r. [int (p - r)]) [0..<p + 1])
      = map (jax_row1 p) [0..<p + 1]"
  proof -
    have "row_diff (0 # [int (p - r)] @ [int p]) = jax_row1 p r" if "r \<in> set [0..<p + 1]" for r
    proof -
      from that have "r \<le> p" by auto
      then show ?thesis by (simp add: jax_row1_def of_nat_diff)
    qed
    then show ?thesis by (simp add: comp_def del: upt_Suc cong: map_cong)
  qed
  finally show ?thesis by (simp add: jax_multi_index_matrix_def)
qed

section \<open>The closed-form multi-index matrix at degree 141\<close>

lemma cubic_mono:
  fixes a b :: real
  assumes "1 \<le> a" and "a < b"
  shows "a ^ 3 - a < b ^ 3 - b"
proof -
  have "b ^ 3 - b - (a ^ 3 - a) = (b - a) * (b * b + a * b + a * a - 1)"
    by (simp add: power3_eq_cube algebra_simps)
  moreover have "0 < b - a" using assms by simp
  moreover have "0 < b * b + a * b + a * a - 1"
  proof -
    have "1 * 1 \<le> a * a" by (rule mult_mono) (use assms(1) in simp_all)
    then have "1 \<le> a * a" by simp
    moreover have "0 < a * b" using assms by simp
    moreover have "0 < b * b" using assms by simp
    ultimately show ?thesis by linarith
  qed
  ultimately have "0 < b ^ 3 - b - (a ^ 3 - a)" by simp
  then show ?thesis by simp
qed

lemma tetrahedral_root_cubic:
  fixes idx :: real
  assumes "1 \<le> idx"
  defines "c \<equiv> root 3 (3 * idx + sqrt (81 * idx * idx - 1 / 3) / 3)"
  shows "(c + 1 / c / 3) ^ 3 - (c + 1 / c / 3) = 6 * idx" and "1 \<le> c + 1 / c / 3"
proof -
  let ?s = "sqrt (81 * idx * idx - 1 / 3) / 3"
  have "1 * 1 \<le> idx * idx" by (rule mult_mono) (use assms(1) in simp_all)
  then have i2: "1 \<le> idx * idx" by simp
  then have pos: "0 \<le> 81 * idx * idx - 1 / 3" by simp
  have SS: "sqrt (81 * idx * idx - 1 / 3) * sqrt (81 * idx * idx - 1 / 3) = 81 * idx * idx - 1 / 3"
    using pos by simp
  have "?s * ?s = (sqrt (81 * idx * idx - 1 / 3) * sqrt (81 * idx * idx - 1 / 3)) / 9"
    by simp
  also have "\<dots> = (81 * idx * idx - 1 / 3) / 9" by (simp only: SS)
  also have "\<dots> = 9 * idx * idx - 1 / 27" by (simp add: diff_divide_distrib)
  finally have s2: "?s * ?s = 9 * idx * idx - 1 / 27" .
  have s0: "0 \<le> ?s" using pos by simp
  have c3: "c ^ 3 = 3 * idx + ?s"
    unfolding c_def by (rule odd_real_root_pow) simp
  have arg: "3 \<le> 3 * idx + ?s" using assms(1) s0 by linarith
  have c1: "1 \<le> c"
  proof -
    have "root 3 1 \<le> root 3 (3 * idx + ?s)"
      by (rule real_root_le_mono) (use arg in simp_all)
    then show ?thesis unfolding c_def by simp
  qed
  then have c0: "c \<noteq> 0" by simp
  let ?d = "1 / c / 3"
  have d3: "?d ^ 3 = 3 * idx - ?s"
  proof -
    have "(3 * idx - ?s) * (3 * idx + ?s) = 9 * idx * idx - ?s * ?s"
      by (simp add: algebra_simps)
    also have "\<dots> = 1 / 27" by (simp only: s2)
    finally have e1: "(3 * idx - ?s) * c ^ 3 = 1 / 27" unfolding c3 .
    have e2: "?d ^ 3 * c ^ 3 = 1 / 27"
      using c0 by (simp add: power3_eq_cube field_simps)
    have nz: "c ^ 3 \<noteq> 0" using c0 by simp
    have "?d ^ 3 * c ^ 3 = (3 * idx - ?s) * c ^ 3"
      by (rule trans[OF e2 e1[symmetric]])
    then show ?thesis using mult_right_cancel[OF nz] by blast
  qed
  have cd: "c * ?d = 1 / 3" using c0 by simp
  have cube: "(u + v) ^ 3 = u ^ 3 + v ^ 3 + 3 * (u * v) * (u + v)" for u v :: real
    by (simp add: power3_eq_cube algebra_simps)
  have "(c + ?d) ^ 3 = c ^ 3 + ?d ^ 3 + 3 * (c * ?d) * (c + ?d)"
    by (rule cube)
  also have "\<dots> = 6 * idx + (c + ?d)"
    unfolding c3 d3 cd by simp
  finally show "(c + ?d) ^ 3 - (c + ?d) = 6 * idx" by simp
  have "0 \<le> ?d" using c1 by simp
  then show "1 \<le> c + ?d" using c1 by linarith
qed

lemma jax_idx0_at_477190: "jax_idx0 477190 = 141"
proof -
  define c :: real where "c = root 3 (3 * 477190 + sqrt (81 * 477190 * 477190 - 1 / 3) / 3)"
  define y where "y = c + 1 / c / 3"
  have cub: "y ^ 3 - y = 6 * 477190" and y1: "1 \<le> y"
    unfolding y_def c_def by (rule tetrahedral_root_cubic, simp)+
  have lo: "1419999 / 10000 \<le> y"
  proof (rule ccontr)
    assume "\<not> 1419999 / 10000 \<le> y"
    then have "y < 1419999 / 10000" by simp
    from cubic_mono[OF y1 this] have "y ^ 3 - y < (1419999 / 10000) ^ 3 - 1419999 / 10000" .
    moreover have "(1419999 / 10000 :: real) ^ 3 - 1419999 / 10000 < 6 * 477190"
      by (simp add: power3_eq_cube)
    ultimately show False using cub by simp
  qed
  have hi: "y < 142"
  proof (rule ccontr)
    assume "\<not> y < 142"
    then have "142 \<le> y" by simp
    then have "(142::real) ^ 3 - 142 \<le> y ^ 3 - y"
      using cubic_mono[of 142 y] by (cases "y = 142") auto
    then show False using cub by (simp add: power3_eq_cube)
  qed
  have "\<lfloor>y - 1 + 1 / 10000\<rfloor> = 141"
    by (rule floor_unique) (use lo hi in simp_all)
  then show ?thesis
    unfolding jax_idx0_def Let_def c_def[symmetric] y_def[symmetric]
    by (simp add: y_def)
qed

lemma mapM_fails:
  "x \<in> set xs \<Longrightarrow> f x = Inl e \<Longrightarrow> \<exists>e'. mapM f xs = Inl e'"
  by (induction xs) (auto split: sum.splits)

lemma jax_row3_at_477190: "jax_row3 p 477190 = Inl NotANumber"
proof -
  have "real 477190 = 477190" by simp
  then show ?thesis
    unfolding jax_row3_def Let_def by (simp only: jax_idx0_at_477190) simp
qed

text \<open>
  Claim C10. The claim is that the closed-form matrix equals the enumerated one for every
  \<open>p \<ge> 1\<close>. For tetrahedra the closed form recovers \<open>a + b + c\<close> from the row position
  \<open>idx\<close> as the floor of the real root of \<open>n (n + 1) (n + 2) / 6 = idx\<close> plus the tolerance
  \<open>1e-4\<close>. At \<open>idx = 477190\<close>, one before the tetrahedral number \<open>477191\<close> of 141, the root
  is within \<open>1e-4\<close> of 141, so the floor is 141 where the row belongs to the block of
  140. The remainder \<open>idx1\<close> is then \<open>-1\<close> and the next square root is taken of \<open>-7\<close>. The
  position exists for every \<open>p \<ge> 141\<close>; the theorem evaluates \<open>p = 141\<close>, where the
  enumerated matrix has a proper row at that position and the closed form does not.
  On intervals and triangles the two matrices are equal for every \<open>p\<close>, in exact
  arithmetic: \<open>jax_multi_index_matrix_interval\<close> and \<open>jax_multi_index_matrix_triangle\<close>.
\<close>

theorem jax_multi_index_matrix_fails_at_141:
  "jax_idx0 477190 = 141
   \<and> jax_row3 141 477190 = Inl NotANumber
   \<and> (477190 :: nat) < (141 + 1) * (141 + 2) * (141 + 3) div 6
   \<and> (\<exists>e. jax_multi_index_matrix 141 3 = Inl e)
   \<and> jax_multi_index_matrix 141 3 \<noteq> Inr (Some (multi_index_matrix 141 3))"
proof -
  have n: "(141 + 1) * (141 + 2) * (141 + 3) div 6 = (487344 :: nat)" by simp
  have "(477190 :: nat) \<in> set [1..<487344]" by simp
  then have "\<exists>e. mapM (jax_row3 141) [1..<487344] = Inl e"
    using jax_row3_at_477190[of 141] by (rule mapM_fails)
  then obtain e where "mapM (jax_row3 141) [1..<487344] = Inl e" ..
  then have f: "jax_multi_index_matrix 141 3 = Inl e"
    unfolding jax_multi_index_matrix_def n by simp
  show ?thesis
    using jax_idx0_at_477190 jax_row3_at_477190[of 141] f by (simp add: n)
qed

end
